theory Spec2Isabelle
  imports Main "HOL-Library.AList" "HOL-Library.Sublist"
begin

section \<open>The data of \<open>folders-preferences-provider.ts\<close>\<close>

subsection \<open>URIs\<close>

text \<open>
  Modelled from the spec: the class \<open>URI\<close> of \<open>@theia/core/lib/common/uri\<close> is not part
  of the source file. The spec calls the identity of a resolver the canonical string of
  the full config-file URI (folder + directory + file) and the identity of a group the
  string of folder + directory. A URI is therefore its canonical string, \<open>new URI(s)\<close>
  and \<open>toString()\<close> are the identity, \<open>resolve\<close> appends one path segment after a
  separator and \<open>parent\<close> drops the last segment with its separator.
\<close>

type_synonym URI = string

definition URI_resolve :: "URI \<Rightarrow> string \<Rightarrow> URI" where
  "URI_resolve u seg = u @ ''/'' @ seg"

definition URI_parent :: "URI \<Rightarrow> URI" where
  "URI_parent u = rev (tl (dropWhile (\<lambda>c. c \<noteq> CHR ''/'') (rev u)))"

text \<open>
  Modelled from the spec: \<open>Path.relativity\<close> is not part of the source file either. The
  functions below take it as the parameter \<open>rel\<close>; \<open>rel folderUri resourceUri\<close> stands for
  \<open>folderUri.path.relativity(new URI(resourceUri).path)\<close>. The spec describes it as a
  non-negative integer that is higher the more specific the enclosing folder is, and \<open>-1\<close>
  when the folder does not enclose the resource. \<open>depth_relativity\<close> is one such function,
  used for concrete evaluation only: the number of separators of an enclosing folder.
\<close>

definition depth_relativity :: "URI \<Rightarrow> URI \<Rightarrow> int" where
  "depth_relativity folder res =
     (if folder = res \<or> take (length folder + 1) res = folder @ ''/''
      then int (length (filter (\<lambda>c. c = CHR ''/'') folder))
      else - 1)"

subsection \<open>JavaScript values and promises\<close>

text \<open>A value of a preference as \<open>resolve\<close> tests it: \<open>undefined\<close>, \<open>null\<close> or anything else.\<close>

datatype 'v jsval = Undefined | Null | Val 'v

text \<open>
  The state a \<open>Promise<void>\<close> ends in: fulfilled, rejected with a reason (a message), or
  never settled.
\<close>

datatype promise = Fulfilled | Rejected string | Pending

text \<open>
  What one call of a provider's asynchronous \<open>setPreference\<close> gives once awaited: the
  boolean it resolves to, or a rejection, which the awaiting loop does not catch.
\<close>

datatype write_outcome = Returned bool | Threw string

subsection \<open>The folder provider, as this file uses it\<close>

text \<open>
  The class \<open>FolderPreferenceProvider\<close> lives in \<open>./folder-preference-provider\<close>, outside
  the source file. A provider is the object's identity \<open>oid\<close> (its allocation number)
  together with what each member used here gives: \<open>folderUri\<close>, \<open>ready\<close>,
  \<open>getConfigUri(resourceUri)\<close>, \<open>resolve(preferenceName, resourceUri)\<close> as the pair
  \<open>(value, configUri)\<close>, \<open>getPreferences()\<close> and the awaited
  \<open>setPreference(preferenceName, value, resourceUri)\<close>.
\<close>

record 'v FolderPreferenceProvider =
  oid :: nat
  folderUri :: URI
  ready :: promise
  getConfigUri_m :: "string option \<Rightarrow> URI option"
  resolve_m :: "string \<Rightarrow> string option \<Rightarrow> 'v jsval \<times> URI option"
  getPreferences_m :: "string \<rightharpoonup> 'v"
  setPreference_m :: "string \<Rightarrow> 'v \<Rightarrow> string option \<Rightarrow> write_outcome"

record FileStat =
  uri :: string

record FolderPreferenceProviderOptions =
  folder :: FileStat
  configUri :: URI

type_synonym 'v FolderPreferenceProviderFactory =
  "FolderPreferenceProviderOptions \<Rightarrow> 'v FolderPreferenceProvider"

subsection \<open>The state of \<open>FoldersPreferencesProvider\<close>\<close>

text \<open>
  \<open>providers\<close> is the \<open>Map<string, FolderPreferenceProvider>\<close>, an association list in
  insertion order: \<open>Map.set\<close> is \<open>AList.update\<close> (a present key keeps its place, a new
  one goes last), \<open>Map.get\<close> is \<open>map_of\<close>, \<open>Map.delete\<close> is \<open>AList.delete\<close>.
  \<open>toDispose\<close> is the inherited disposable collection, \<open>ready_deferred\<close> the inherited
  \<open>_ready\<close>, \<open>console\<close> what \<open>console.error\<close> has printed. \<open>nextOid\<close> numbers the objects
  the factory returns and \<open>trace\<close> records, in order, every call of the factory and
  every call of a provider's \<open>dispose()\<close>.
\<close>

datatype disposable = ProviderDisposable nat | ListenerDisposable nat

datatype event = Created string nat | Disposed string nat

record 'v FoldersPreferencesProvider =
  providers :: "(string \<times> 'v FolderPreferenceProvider) list"
  toDispose :: "disposable list"
  ready_deferred :: promise
  console :: "string list"
  nextOid :: nat
  trace :: "event list"

definition initial :: "'v FoldersPreferencesProvider" where
  "initial = \<lparr> providers = [], toDispose = [], ready_deferred = Pending, console = [],
               nextOid = 0, trace = [] \<rparr>"

section \<open>Reconciliation\<close>

definition configPaths :: "string list" where
  "configPaths = [''.theia'', ''.vscode'']"

definition configFileNames :: "string list" where
  "configFileNames = [''launch.json'', ''settings.json'']"

text \<open>\<open>createProvider\<close>: the factory's object, pushed onto \<open>toDispose\<close> with its listener.\<close>

definition createProvider ::
  "'v FolderPreferenceProviderFactory \<Rightarrow> FolderPreferenceProviderOptions \<Rightarrow>
   'v FoldersPreferencesProvider \<Rightarrow> 'v FolderPreferenceProvider \<times> 'v FoldersPreferencesProvider" where
  "createProvider factory options s =
     (let provider = (factory options)\<lparr> oid := nextOid s \<rparr>
      in (provider,
          s\<lparr> toDispose := toDispose s @ [ProviderDisposable (oid provider), ListenerDisposable (oid provider)],
             nextOid := Suc (nextOid s),
             trace := trace s @ [Created (configUri options) (oid provider)] \<rparr>))"

text \<open>The body of the innermost loop of \<open>updateProviders\<close> (lines 57 to 63).\<close>

definition visit ::
  "'v FolderPreferenceProviderFactory \<Rightarrow> FileStat \<Rightarrow> string \<Rightarrow> string \<Rightarrow>
   string list \<times> 'v FoldersPreferencesProvider \<Rightarrow> string list \<times> 'v FoldersPreferencesProvider" where
  "visit factory fld configPath configFileName st =
     (case st of (toDelete, s) \<Rightarrow>
        let cfgUri = URI_resolve (URI_resolve (uri fld) configPath) configFileName;
            key = cfgUri;
            toDelete' = removeAll key toDelete
        in if map_of (providers s) key \<noteq> None then (toDelete', s)
           else (case createProvider factory \<lparr> folder = fld, configUri = cfgUri \<rparr> s of
                   (provider, s') \<Rightarrow>
                     (toDelete', s'\<lparr> providers := AList.update key provider (providers s') \<rparr>)))"

text \<open>The body of the second loop (lines 68 to 72): delete the record, then dispose.\<close>

definition remove_key ::
  "'v FoldersPreferencesProvider \<Rightarrow> string \<Rightarrow> 'v FoldersPreferencesProvider" where
  "remove_key s key =
     (case map_of (providers s) key of
        None \<Rightarrow> s
      | Some provider \<Rightarrow>
          s\<lparr> providers := AList.delete key (providers s),
             trace := trace s @ [Disposed key (oid provider)] \<rparr>)"

definition updateProviders ::
  "'v FolderPreferenceProviderFactory \<Rightarrow> FileStat list \<Rightarrow>
   'v FoldersPreferencesProvider \<Rightarrow> 'v FoldersPreferencesProvider" where
  "updateProviders factory roots s =
     (case foldl (\<lambda>st fld.
             foldl (\<lambda>st configPath.
               foldl (\<lambda>st configFileName. visit factory fld configPath configFileName st)
                 st configFileNames)
               st configPaths)
           (map fst (providers s), s) roots of
        (toDelete, s1) \<Rightarrow> foldl remove_key s1 toDelete)"

section \<open>Ranking\<close>

type_synonym 'v groups = "(int \<times> (string \<times> 'v FolderPreferenceProvider list) list) list"

text \<open>The body of the loop of \<open>getProviders\<close> (lines 127 to 140).\<close>

definition rank_step ::
  "(URI \<Rightarrow> URI \<Rightarrow> int) \<Rightarrow> string \<Rightarrow> int \<times> 'v groups \<Rightarrow> 'v FolderPreferenceProvider \<Rightarrow>
   int \<times> 'v groups" where
  "rank_step rel resourceUri st provider =
     (case st of (relativity, groups) \<Rightarrow>
        (case getConfigUri_m provider (Some resourceUri) of
           None \<Rightarrow> (relativity, groups)
         | Some cfgUri \<Rightarrow>
             let folderRelativity = rel (folderUri provider) resourceUri
             in if folderRelativity \<ge> 0 \<and> relativity \<le> folderRelativity then
                  let configProviders = (case map_of groups folderRelativity of
                                           Some m \<Rightarrow> m | None \<Rightarrow> []);
                      configPathUri = URI_parent cfgUri;
                      folderProviders = (case map_of configProviders configPathUri of
                                           Some l \<Rightarrow> l | None \<Rightarrow> [])
                  in (folderRelativity,
                      AList.update folderRelativity
                        (AList.update configPathUri (folderProviders @ [provider]) configProviders)
                        groups)
                else (relativity, groups)))"

text \<open>
  \<open>getProviders\<close>: \<open>!resourceUri\<close> holds for \<open>undefined\<close> and for the empty string. The
  result is the first value of the inner map stored under the final \<open>relativity\<close>.
\<close>

definition getProviders ::
  "(URI \<Rightarrow> URI \<Rightarrow> int) \<Rightarrow> (string \<times> 'v FolderPreferenceProvider) list \<Rightarrow> string option \<Rightarrow>
   'v FolderPreferenceProvider list" where
  "getProviders rel ps resourceUri =
     (case resourceUri of
        None \<Rightarrow> []
      | Some r \<Rightarrow>
          if r = [] then []
          else (case foldl (rank_step rel r) (- 1, []) (map snd ps) of
                  (relativity, groups) \<Rightarrow>
                    (case map_of groups relativity of
                       None \<Rightarrow> []
                     | Some resultMap \<Rightarrow>
                         (case resultMap of [] \<Rightarrow> [] | kv # _ \<Rightarrow> snd kv))))"

section \<open>Queries\<close>

fun resolve_loop ::
  "'v FolderPreferenceProvider list \<Rightarrow> string \<Rightarrow> string option \<Rightarrow> 'v jsval \<times> URI option" where
  "resolve_loop [] preferenceName resourceUri = (Undefined, None)"
| "resolve_loop (provider # rest) preferenceName resourceUri =
     (case resolve_m provider preferenceName resourceUri of
        (v, cfgUri) \<Rightarrow>
          if v \<noteq> Undefined \<and> v \<noteq> Null then (v, cfgUri)
          else resolve_loop rest preferenceName resourceUri)"

text \<open>\<open>resolve\<close>; the empty object \<open>{}\<close> is the pair of \<open>undefined\<close> and no URI.\<close>

definition resolve ::
  "(URI \<Rightarrow> URI \<Rightarrow> int) \<Rightarrow> (string \<times> 'v FolderPreferenceProvider) list \<Rightarrow> string \<Rightarrow>
   string option \<Rightarrow> 'v jsval \<times> URI option" where
  "resolve rel ps preferenceName resourceUri =
     resolve_loop (getProviders rel ps resourceUri) preferenceName resourceUri"

text \<open>\<open>getPreferences\<close>; \<open>Object.assign(result, preferences)\<close> is \<open>result ++ preferences\<close>.\<close>

definition getPreferences ::
  "(URI \<Rightarrow> URI \<Rightarrow> int) \<Rightarrow> (string \<times> 'v FolderPreferenceProvider) list \<Rightarrow> string option \<Rightarrow>
   (string \<rightharpoonup> 'v)" where
  "getPreferences rel ps resourceUri =
     foldl (\<lambda>result provider. result ++ getPreferences_m provider) Map.empty
       (rev (getProviders rel ps resourceUri))"

text \<open>
  \<open>setPreference\<close>: the result is the list of providers whose \<open>setPreference\<close> was called,
  each with what the call gave, and what the whole call gives: \<open>Inr\<close> the boolean it
  resolves to, or \<open>Inl\<close> the reason it rejects with.
\<close>

fun setPreference_loop ::
  "'v FolderPreferenceProvider list \<Rightarrow> string \<Rightarrow> 'v \<Rightarrow> string option \<Rightarrow>
   ('v FolderPreferenceProvider \<times> write_outcome) list \<times> (string + bool)" where
  "setPreference_loop [] preferenceName v resourceUri = ([], Inr False)"
| "setPreference_loop (provider # rest) preferenceName v resourceUri =
     (case setPreference_m provider preferenceName v resourceUri of
        Threw e \<Rightarrow> ([(provider, Threw e)], Inl e)
      | Returned True \<Rightarrow> ([(provider, Returned True)], Inr True)
      | Returned False \<Rightarrow>
          (case setPreference_loop rest preferenceName v resourceUri of
             (calls, res) \<Rightarrow> ((provider, Returned False) # calls, res)))"

definition setPreference ::
  "(URI \<Rightarrow> URI \<Rightarrow> int) \<Rightarrow> (string \<times> 'v FolderPreferenceProvider) list \<Rightarrow> string \<Rightarrow> 'v \<Rightarrow>
   string option \<Rightarrow> ('v FolderPreferenceProvider \<times> write_outcome) list \<times> (string + bool)" where
  "setPreference rel ps preferenceName v resourceUri =
     setPreference_loop (getProviders rel ps resourceUri) preferenceName v resourceUri"

section \<open>Readiness\<close>

text \<open>
  \<open>p.catch(e => console.error(e))\<close>: a rejection is printed and the new promise is
  fulfilled; \<open>Promise.all\<close>: rejected when a member is, else pending when a member is,
  else fulfilled (the reason of a rejection depends on timing and is left out).
\<close>

definition catch_error :: "promise \<Rightarrow> promise" where
  "catch_error p = (case p of Rejected e \<Rightarrow> Fulfilled | _ \<Rightarrow> p)"

definition printed :: "promise \<Rightarrow> string list" where
  "printed p = (case p of Rejected e \<Rightarrow> [e] | _ \<Rightarrow> [])"

definition Promise_all :: "promise list \<Rightarrow> promise" where
  "Promise_all ps =
     (if list_ex (\<lambda>p. case p of Rejected e \<Rightarrow> True | _ \<Rightarrow> False) ps then Rejected ''''
      else if list_ex (\<lambda>p. p = Pending) ps then Pending else Fulfilled)"

text \<open>
  \<open>init\<close>: \<open>rootsPromise\<close> is the state of \<open>workspaceService.roots\<close> and \<open>roots\<close> what
  \<open>tryGetRoots()\<close> returns. When the awaited promise does not fulfil, nothing after the
  \<open>await\<close> runs. \<open>_ready\<close> is resolved only in the \<open>then\<close> of the \<open>Promise.all\<close>. The
  listener on \<open>onWorkspaceChanged\<close> calls \<open>updateProviders\<close> again on every later change;
  those calls are further applications of \<open>updateProviders\<close> to the state.
\<close>

definition init ::
  "'v FolderPreferenceProviderFactory \<Rightarrow> promise \<Rightarrow> FileStat list \<Rightarrow>
   'v FoldersPreferencesProvider \<Rightarrow> 'v FoldersPreferencesProvider" where
  "init factory rootsPromise roots s =
     (if rootsPromise \<noteq> Fulfilled then s
      else
        let s1 = updateProviders factory roots s;
            readys = map (\<lambda>kv. ready (snd kv)) (providers s1);
            readyPromises = map catch_error readys
        in s1\<lparr> console := console s1 @ concat (map printed readys),
               ready_deferred := (if Promise_all readyPromises = Fulfilled then Fulfilled
                                  else ready_deferred s1) \<rparr>)"

section \<open>The ranking and the desired set in the words of the spec\<close>

text \<open>
  A provider applies to a resource when its \<open>getConfigUri\<close> answers and its folder
  encloses the resource; its directory-group is the parent of the URI it answers with.
  \<open>ranking\<close> follows section 4.2 of the spec: of the applicable providers those of the
  greatest relativity, and of these the ones in the directory-group of the first.
\<close>

definition applicable :: "(URI \<Rightarrow> URI \<Rightarrow> int) \<Rightarrow> string \<Rightarrow> 'v FolderPreferenceProvider \<Rightarrow> bool" where
  "applicable rel r p = (getConfigUri_m p (Some r) \<noteq> None \<and> 0 \<le> rel (folderUri p) r)"

definition group_of :: "string \<Rightarrow> 'v FolderPreferenceProvider \<Rightarrow> string" where
  "group_of r p = (case getConfigUri_m p (Some r) of Some c \<Rightarrow> URI_parent c | None \<Rightarrow> [])"

definition ranking ::
  "(URI \<Rightarrow> URI \<Rightarrow> int) \<Rightarrow> (string \<times> 'v FolderPreferenceProvider) list \<Rightarrow> string \<Rightarrow>
   'v FolderPreferenceProvider list" where
  "ranking rel ps r =
     (let cands = filter (applicable rel r) (map snd ps)
      in if cands = [] then []
         else let best = Max (set (map (\<lambda>p. rel (folderUri p) r) cands));
                  top = filter (\<lambda>p. rel (folderUri p) r = best) cands
              in filter (\<lambda>p. group_of r p = group_of r (hd top)) top)"

text \<open>
  The inner map that \<open>getProviders\<close> builds for one relativity: \<open>add_to_group\<close> is the
  \<open>push\<close> and \<open>set\<close> of lines 135 to 137, \<open>grouping\<close> its iteration, and \<open>rank_inv\<close> the
  invariant of the loop after the providers \<open>xs\<close>.
\<close>

definition add_to_group ::
  "string \<Rightarrow> (string \<times> 'v FolderPreferenceProvider list) list \<Rightarrow> 'v FolderPreferenceProvider \<Rightarrow>
   (string \<times> 'v FolderPreferenceProvider list) list" where
  "add_to_group r m p =
     AList.update (group_of r p)
       ((case map_of m (group_of r p) of Some l \<Rightarrow> l | None \<Rightarrow> []) @ [p]) m"

definition grouping ::
  "string \<Rightarrow> 'v FolderPreferenceProvider list \<Rightarrow> (string \<times> 'v FolderPreferenceProvider list) list" where
  "grouping r ys = foldl (add_to_group r) [] ys"

definition rank_inv ::
  "(URI \<Rightarrow> URI \<Rightarrow> int) \<Rightarrow> string \<Rightarrow> 'v FolderPreferenceProvider list \<Rightarrow> int \<times> 'v groups \<Rightarrow> bool" where
  "rank_inv rel r xs st =
     (case st of (R, G) \<Rightarrow>
        (\<forall>p \<in> set (filter (applicable rel r) xs). rel (folderUri p) r \<le> R) \<and>
        (filter (applicable rel r) xs = [] \<longrightarrow> R = - 1 \<and> G = []) \<and>
        (filter (applicable rel r) xs \<noteq> [] \<longrightarrow>
           (\<exists>p \<in> set (filter (applicable rel r) xs). rel (folderUri p) r = R) \<and>
           map_of G R = Some (grouping r (filter (\<lambda>p. rel (folderUri p) r = R)
                                             (filter (applicable rel r) xs)))) \<and>
        (\<forall>k. R < k \<longrightarrow> map_of G k = None))"

text \<open>
  The desired set of section 4.1: the combinations of folder, directory and file in the
  order of the three loops, and their identities. \<open>visit_all\<close> runs the loop body over a
  list of combinations; \<open>run_events\<close> are the events one run adds to the trace.
\<close>

definition key_of :: "FileStat \<times> string \<times> string \<Rightarrow> string" where
  "key_of t = (case t of (fld, configPath, configFileName) \<Rightarrow>
                 URI_resolve (URI_resolve (uri fld) configPath) configFileName)"

definition combinations :: "FileStat list \<Rightarrow> (FileStat \<times> string \<times> string) list" where
  "combinations roots =
     concat (map (\<lambda>fld. concat (map (\<lambda>configPath.
        map (\<lambda>configFileName. (fld, configPath, configFileName)) configFileNames) configPaths)) roots)"

definition desired :: "FileStat list \<Rightarrow> string list" where
  "desired roots = map key_of (combinations roots)"

definition visit_all ::
  "'v FolderPreferenceProviderFactory \<Rightarrow> (FileStat \<times> string \<times> string) list \<Rightarrow>
   string list \<times> 'v FoldersPreferencesProvider \<Rightarrow> string list \<times> 'v FoldersPreferencesProvider" where
  "visit_all factory ts st =
     foldl (\<lambda>st t. case t of (fld, configPath, configFileName) \<Rightarrow>
                      visit factory fld configPath configFileName st) st ts"

definition run_events :: "'v FoldersPreferencesProvider \<Rightarrow> 'v FoldersPreferencesProvider \<Rightarrow> event list" where
  "run_events s s' = drop (length (trace s)) (trace s')"

fun event_key :: "event \<Rightarrow> string" where
  "event_key (Created k n) = k"
| "event_key (Disposed k n) = k"

section \<open>A file-backed provider for concrete evaluation\<close>

text \<open>
  Modelled from the spec: the Folder Config Resolver of sections 2 and 6 is outside the
  source file. \<open>file_provider files\<close> is a factory of such resolvers over a table of the
  config files that exist, each with its key/value pairs: a resolver backs the one file
  \<open>configUri\<close> of its options, answers \<open>getConfigUri\<close> with it for a resource its folder
  encloses, looks values up in the file, and reports a write as successful when the file
  exists. It is used to evaluate the functions above on concrete workspaces only; no
  general theorem below depends on it.
\<close>

definition file_provider ::
  "(URI \<times> (string \<times> 'v) list) list \<Rightarrow> 'v FolderPreferenceProviderFactory" where
  "file_provider files options =
     \<lparr> oid = 0,
       folderUri = uri (folder options),
       ready = Fulfilled,
       getConfigUri_m = (\<lambda>resourceUri. case resourceUri of
            None \<Rightarrow> Some (configUri options)
          | Some r \<Rightarrow> if 0 \<le> depth_relativity (uri (folder options)) r
                      then Some (configUri options) else None),
       resolve_m = (\<lambda>preferenceName resourceUri. case map_of files (configUri options) of
            None \<Rightarrow> (Undefined, None)
          | Some prefs \<Rightarrow> (case map_of prefs preferenceName of
                None \<Rightarrow> (Undefined, Some (configUri options))
              | Some v \<Rightarrow> (Val v, Some (configUri options)))),
       getPreferences_m = (case map_of files (configUri options) of
            None \<Rightarrow> Map.empty | Some prefs \<Rightarrow> map_of prefs),
       setPreference_m = (\<lambda>preferenceName v resourceUri.
            Returned (map_of files (configUri options) \<noteq> None)) \<rparr>"

text \<open>The registry after the first reconciliation of a fresh object.\<close>

definition registry ::
  "'v FolderPreferenceProviderFactory \<Rightarrow> FileStat list \<Rightarrow>
   (string \<times> 'v FolderPreferenceProvider) list" where
  "registry factory roots = providers (updateProviders factory roots initial)"

text \<open>A workspace of one folder whose launch file defines \<open>a\<close> and whose settings file
  defines \<open>a\<close> and \<open>b\<close>.\<close>

definition launch_and_settings :: "(URI \<times> (string \<times> int) list) list" where
  "launch_and_settings =
     [(''/root/a/.theia/launch.json'', [(''a'', 1)]),
      (''/root/a/.theia/settings.json'', [(''a'', 2), (''b'', 3)])]"

definition folder_a :: FileStat where
  "folder_a = \<lparr> uri = ''/root/a'' \<rparr>"

text \<open>Workspaces of the one folder \<open>/root/a\<close> where only the secondary directory defines
  \<open>key\<close>, and where both directories do.\<close>

definition vscode_only :: "(URI \<times> (string \<times> int) list) list" where
  "vscode_only = [(''/root/a/.vscode/settings.json'', [(''key'', 2)])]"

definition theia_and_vscode :: "(URI \<times> (string \<times> int) list) list" where
  "theia_and_vscode =
     [(''/root/a/.theia/settings.json'', [(''key'', 1)]),
      (''/root/a/.vscode/settings.json'', [(''key'', 2)])]"

text \<open>Two sibling folders; the two workspaces differ in the settings of \<open>/root/b\<close> only.\<close>

definition folder_b :: FileStat where
  "folder_b = \<lparr> uri = ''/root/b'' \<rparr>"

definition siblings_7 :: "(URI \<times> (string \<times> int) list) list" where
  "siblings_7 =
     [(''/root/a/.theia/settings.json'', [(''key'', 1)]),
      (''/root/b/.theia/settings.json'', [(''key'', 7)])]"

definition siblings_8 :: "(URI \<times> (string \<times> int) list) list" where
  "siblings_8 =
     [(''/root/a/.theia/settings.json'', [(''key'', 1)]),
      (''/root/b/.theia/settings.json'', [(''key'', 8), (''other'', 9)])]"

text \<open>A factory whose providers for the listed config files fail to become ready.\<close>

definition unreadable_provider ::
  "(URI \<times> (string \<times> 'v) list) list \<Rightarrow> URI list \<Rightarrow> 'v FolderPreferenceProviderFactory" where
  "unreadable_provider files bad options =
     (file_provider files options)
       \<lparr> ready := (if configUri options \<in> set bad then Rejected ''unreadable'' else Fulfilled) \<rparr>"

text \<open>
  Replaying a trace: the identities with a live instance, with the number of the instance,
  in the order of creation. A creation under an identity that has a live instance and a
  disposal of anything but the live instance of its identity make the replay fail. A state
  is \<open>consistent\<close> when the keys of its registry are distinct and the replay of its trace
  gives the registry: every provider ever disposed was the registered instance of its
  identity at that moment, and is registered no more.
\<close>

fun replay :: "(string \<times> nat) list \<Rightarrow> event list \<Rightarrow> (string \<times> nat) list option" where
  "replay m [] = Some m"
| "replay m (Created k n # es) =
     (if map_of m k = None then replay (m @ [(k, n)]) es else None)"
| "replay m (Disposed k n # es) =
     (if map_of m k = Some n then replay (AList.delete k m) es else None)"

definition consistent :: "'v FoldersPreferencesProvider \<Rightarrow> bool" where
  "consistent s =
     (distinct (map fst (providers s)) \<and>
      replay [] (trace s) = Some (map (\<lambda>kv. (fst kv, oid (snd kv))) (providers s)))"

section \<open>The write loop\<close>

lemma setPreference_loop_calls:
  "fst (setPreference_loop xs n v r) =
     map (\<lambda>p. (p, setPreference_m p n v r)) (take (length (fst (setPreference_loop xs n v r))) xs)"
  by (induction xs) (auto split: write_outcome.splits bool.splits prod.splits)

lemma setPreference_loop_butlast:
  "c \<in> set (butlast (fst (setPreference_loop xs n v r))) \<Longrightarrow> snd c = Returned False"
  by (induction xs) (auto split: write_outcome.splits bool.splits prod.splits if_splits)

lemma setPreference_loop_success_count:
  "length (filter (\<lambda>c. snd c = Returned True) (fst (setPreference_loop xs n v r))) \<le> 1"
  by (induction xs) (auto split: write_outcome.splits bool.splits prod.splits)

lemma setPreference_loop_result:
  "snd (setPreference_loop xs n v r) = Inr True \<longleftrightarrow>
     fst (setPreference_loop xs n v r) \<noteq> [] \<and> snd (last (fst (setPreference_loop xs n v r))) = Returned True"
  by (induction xs) (auto split: write_outcome.splits bool.splits prod.splits)

lemma setPreference_loop_after_failures:
  "\<forall>q \<in> set pre. setPreference_m q n v r = Returned False \<Longrightarrow>
     setPreference_loop (pre @ xs) n v r =
       (map (\<lambda>q. (q, Returned False)) pre @ fst (setPreference_loop xs n v r),
        snd (setPreference_loop xs n v r))"
  by (induction pre) (simp_all split: prod.splits)

lemma setPreference_loop_success:
  assumes "\<forall>q \<in> set pre. setPreference_m q n v r = Returned False"
    and "setPreference_m p n v r = Returned True"
  shows "setPreference_loop (pre @ p # rest) n v r =
           (map (\<lambda>q. (q, Returned False)) pre @ [(p, Returned True)], Inr True)"
  using assms by (simp add: setPreference_loop_after_failures)

lemma setPreference_loop_threw:
  assumes "\<forall>q \<in> set pre. setPreference_m q n v r = Returned False"
    and "setPreference_m p n v r = Threw e"
  shows "setPreference_loop (pre @ p # rest) n v r =
           (map (\<lambda>q. (q, Returned False)) pre @ [(p, Threw e)], Inl e)"
  using assms by (simp add: setPreference_loop_after_failures)

lemma setPreference_loop_all_failed:
  assumes "\<forall>q \<in> set xs. setPreference_m q n v r = Returned False"
  shows "setPreference_loop xs n v r = (map (\<lambda>q. (q, Returned False)) xs, Inr False)"
  using setPreference_loop_after_failures [OF assms, of "[]"] by simp

lemma setPreference_loop_first:
  "setPreference_m p n v r = Returned True \<Longrightarrow>
     setPreference_loop (p # rest) n v r = ([(p, Returned True)], Inr True)"
  by simp

section \<open>The ranking loop\<close>

lemma grouping_snoc: "grouping r (ys @ [p]) = add_to_group r (grouping r ys) p"
  by (simp add: grouping_def)

lemma map_of_grouping:
  "map_of (grouping r ys) g =
     (if filter (\<lambda>p. group_of r p = g) ys = [] then None
      else Some (filter (\<lambda>p. group_of r p = g) ys))"
proof (induction ys rule: rev_induct)
  case Nil
  show ?case by (simp add: grouping_def)
next
  case (snoc p ys)
  show ?case
    unfolding grouping_snoc add_to_group_def update_conv'
    using snoc.IH by auto
qed

lemma update_nonempty_hd:
  "m \<noteq> [] \<Longrightarrow> AList.update k v m \<noteq> [] \<and> fst (hd (AList.update k v m)) = fst (hd m)"
  by (cases m) auto

lemma grouping_hd:
  "ys \<noteq> [] \<Longrightarrow> grouping r ys \<noteq> [] \<and> fst (hd (grouping r ys)) = group_of r (hd ys)"
proof (induction ys rule: rev_induct)
  case Nil
  then show ?case by simp
next
  case (snoc p ys)
  show ?case
  proof (cases "ys = []")
    case True
    then show ?thesis by (simp add: grouping_def add_to_group_def)
  next
    case False
    with snoc.IH have "grouping r ys \<noteq> []" "fst (hd (grouping r ys)) = group_of r (hd ys)"
      by simp_all
    with False show ?thesis
      unfolding grouping_snoc add_to_group_def
      using update_nonempty_hd [of "grouping r ys"] by simp
  qed
qed

lemma first_value:
  "m \<noteq> [] \<Longrightarrow> (case m of [] \<Rightarrow> [] | kv # _ \<Rightarrow> snd kv) = the (map_of m (fst (hd m)))"
  by (cases m) auto

lemma grouping_first:
  assumes "ys \<noteq> []"
  shows "(case grouping r ys of [] \<Rightarrow> [] | kv # _ \<Rightarrow> snd kv) =
           filter (\<lambda>p. group_of r p = group_of r (hd ys)) ys"
proof -
  from assms have ne: "grouping r ys \<noteq> []" and k: "fst (hd (grouping r ys)) = group_of r (hd ys)"
    using grouping_hd [of ys r] by simp_all
  from assms have "filter (\<lambda>p. group_of r p = group_of r (hd ys)) ys \<noteq> []"
    by (cases ys) simp_all
  then show ?thesis
    by (simp add: first_value [OF ne] k map_of_grouping)
qed

lemma rank_step_eq:
  "rank_step rel r (R, G) p =
     (if applicable rel r p \<and> R \<le> rel (folderUri p) r
      then (rel (folderUri p) r,
            AList.update (rel (folderUri p) r)
              (add_to_group r (case map_of G (rel (folderUri p) r) of Some m \<Rightarrow> m | None \<Rightarrow> []) p) G)
      else (R, G))"
  by (auto simp: rank_step_def applicable_def add_to_group_def group_of_def Let_def
           split: option.splits)

lemma rank_inv_init: "rank_inv rel r [] (- 1, [])"
  by (simp add: rank_inv_def)

lemma rank_inv_step:
  assumes "rank_inv rel r xs st"
  shows "rank_inv rel r (xs @ [p]) (rank_step rel r st p)"
proof -
  obtain R G where st: "st = (R, G)" by (cases st)
  let ?f = "rel (folderUri p) r"
  let ?c = "filter (applicable rel r) xs"
  from assms st have le: "\<forall>q \<in> set ?c. rel (folderUri q) r \<le> R"
    and above: "\<forall>k. R < k \<longrightarrow> map_of G k = None"
    and emp: "?c = [] \<Longrightarrow> R = - 1 \<and> G = []"
    and ne: "?c \<noteq> [] \<Longrightarrow> (\<exists>q \<in> set ?c. rel (folderUri q) r = R) \<and>
              map_of G R = Some (grouping r (filter (\<lambda>q. rel (folderUri q) r = R) ?c))"
    by (simp_all add: rank_inv_def)
  show ?thesis
  proof (cases "applicable rel r p")
    case False
    with assms st show ?thesis by (simp add: rank_step_eq rank_inv_def)
  next
    case app: True
    then have f0: "0 \<le> ?f" by (simp add: applicable_def)
    show ?thesis
    proof (cases "R \<le> ?f")
      case False
      then have "?f < R" by simp
      with app le above ne emp f0 show ?thesis
        unfolding st rank_step_eq rank_inv_def
        by (cases "?c = []") auto
    next
      case True
      show ?thesis
      proof (cases "R = ?f")
        case same: True
        with f0 emp have cne: "?c \<noteq> []" by auto
        from ne [OF cne] same have
          m: "map_of G ?f = Some (grouping r (filter (\<lambda>q. rel (folderUri q) r = ?f) ?c))"
          by simp
        from app True same le above m show ?thesis
          unfolding st rank_step_eq rank_inv_def
          by (auto simp: update_conv' grouping_snoc)
      next
        case False
        with True have lt: "R < ?f" by simp
        with above have none: "map_of G ?f = None" by simp
        from lt le have nof: "filter (\<lambda>q. rel (folderUri q) r = ?f) ?c = []"
          by (auto simp: filter_empty_conv)
        have g1: "add_to_group r [] p = grouping r [p]"
          by (simp add: grouping_def)
        from app True lt le above none nof show ?thesis
          unfolding st rank_step_eq rank_inv_def
          by (auto simp: update_conv' g1 simp del: grouping_snoc)
      qed
    qed
  qed
qed

lemma rank_inv_foldl: "rank_inv rel r xs (foldl (rank_step rel r) (- 1, []) xs)"
  by (induction xs rule: rev_induct) (simp_all add: rank_inv_init rank_inv_step)

lemma getProviders_ranking:
  assumes "r \<noteq> []"
  shows "getProviders rel ps (Some r) = ranking rel ps r"
proof -
  let ?xs = "map snd ps"
  let ?c = "filter (applicable rel r) ?xs"
  obtain R G where fl: "foldl (rank_step rel r) (- 1, []) ?xs = (R, G)"
    by (cases "foldl (rank_step rel r) (- 1, []) ?xs")
  have inv: "rank_inv rel r ?xs (R, G)"
    using rank_inv_foldl [of rel r ?xs] fl by simp
  show ?thesis
  proof (cases "?c = []")
    case True
    with inv have "G = []" by (simp add: rank_inv_def)
    with True assms fl show ?thesis
      by (simp add: getProviders_def ranking_def)
  next
    case False
    with inv have le: "\<forall>p \<in> set ?c. rel (folderUri p) r \<le> R"
      and ex: "\<exists>p \<in> set ?c. rel (folderUri p) r = R"
      and m: "map_of G R = Some (grouping r (filter (\<lambda>p. rel (folderUri p) r = R) ?c))"
      by (auto simp: rank_inv_def)
    have best: "Max (set (map (\<lambda>p. rel (folderUri p) r) ?c)) = R"
    proof (rule Max_eqI)
      show "finite (set (map (\<lambda>p. rel (folderUri p) r) ?c))" by simp
      show "\<And>y. y \<in> set (map (\<lambda>p. rel (folderUri p) r) ?c) \<Longrightarrow> y \<le> R"
        using le by auto
      show "R \<in> set (map (\<lambda>p. rel (folderUri p) r) ?c)"
        using ex by auto
    qed
    from ex have top: "filter (\<lambda>p. rel (folderUri p) r = R) ?c \<noteq> []"
      by (auto simp: filter_empty_conv)
    let ?top = "filter (\<lambda>p. rel (folderUri p) r = R) ?c"
    have "getProviders rel ps (Some r) = (case grouping r ?top of [] \<Rightarrow> [] | kv # _ \<Rightarrow> snd kv)"
      using assms by (simp add: getProviders_def fl m)
    also have "\<dots> = filter (\<lambda>p. group_of r p = group_of r (hd ?top)) ?top"
      by (rule grouping_first [OF top])
    also have "\<dots> = ranking rel ps r"
      by (simp only: ranking_def Let_def best False if_False)
    finally show ?thesis .
  qed
qed

section \<open>The two loops of reconciliation\<close>

lemma update_absent: "map_of ps k = None \<Longrightarrow> AList.update k v ps = ps @ [(k, v)]"
  by (induction ps) (auto split: if_splits)

lemma nested_loops:
  "foldl (\<lambda>st fld.
      foldl (\<lambda>st configPath.
        foldl (\<lambda>st configFileName. visit factory fld configPath configFileName st)
          st configFileNames)
        st configPaths) st roots
   = visit_all factory (combinations roots) st"
proof (induction roots arbitrary: st)
  case Nil
  show ?case by (simp add: visit_all_def combinations_def)
next
  case (Cons fld roots)
  have "visit_all factory (combinations (fld # roots)) st =
        visit_all factory (combinations roots)
          (visit_all factory (combinations [fld]) st)"
    by (simp add: visit_all_def combinations_def)
  then show ?case
    using Cons.IH
    by (simp add: visit_all_def combinations_def configPaths_def configFileNames_def)
qed

lemma updateProviders_eq:
  "updateProviders factory roots s =
     foldl remove_key (snd (visit_all factory (combinations roots) (map fst (providers s), s)))
       (fst (visit_all factory (combinations roots) (map fst (providers s), s)))"
  by (simp add: updateProviders_def nested_loops split: prod.splits)

lemma visit_all_Nil: "visit_all factory [] st = st"
  by (simp add: visit_all_def)

lemma visit_all_Cons:
  "visit_all factory ((fld, cp, fn) # ts) st = visit_all factory ts (visit factory fld cp fn st)"
  by (simp add: visit_all_def)

lemma visit_present:
  "map_of (providers s) (key_of (fld, cp, fn)) \<noteq> None \<Longrightarrow>
     visit factory fld cp fn (td, s) = (removeAll (key_of (fld, cp, fn)) td, s)"
  by (simp add: visit_def key_of_def Let_def)

lemma visit_absent:
  "map_of (providers s) (key_of (fld, cp, fn)) = None \<Longrightarrow>
     visit factory fld cp fn (td, s) =
       (removeAll (key_of (fld, cp, fn)) td,
        s\<lparr> providers := providers s @
               [(key_of (fld, cp, fn),
                 (factory \<lparr> folder = fld, configUri = key_of (fld, cp, fn) \<rparr>)\<lparr> oid := nextOid s \<rparr>)],
           toDispose := toDispose s @ [ProviderDisposable (nextOid s), ListenerDisposable (nextOid s)],
           nextOid := Suc (nextOid s),
           trace := trace s @ [Created (key_of (fld, cp, fn)) (nextOid s)] \<rparr>)"
  by (simp add: visit_def key_of_def Let_def createProvider_def update_absent)

lemma visit_all_toDelete:
  "fst (visit_all factory ts (td, s)) = filter (\<lambda>k. k \<notin> key_of ` set ts) td"
proof (induction ts arbitrary: td s)
  case Nil
  show ?case by (simp add: visit_all_Nil)
next
  case (Cons t ts)
  obtain fld cp fn where t: "t = (fld, cp, fn)" by (cases t)
  show ?case
    unfolding t visit_all_Cons
    by (cases "map_of (providers s) (key_of (fld, cp, fn)) = None")
       (auto simp: visit_present visit_absent Cons.IH removeAll_filter_not_eq intro: filter_cong)
qed

lemma visit_all_preserves:
  "map_of (providers s) k = Some p \<Longrightarrow>
     map_of (providers (snd (visit_all factory ts (td, s)))) k = Some p"
proof (induction ts arbitrary: td s)
  case Nil
  then show ?case by (simp add: visit_all_Nil)
next
  case (Cons t ts)
  obtain fld cp fn where t: "t = (fld, cp, fn)" by (cases t)
  show ?case
  proof (cases "map_of (providers s) (key_of (fld, cp, fn)) = None")
    case True
    with Cons.prems show ?thesis
      unfolding t visit_all_Cons visit_absent [OF True]
      by (intro Cons.IH) (auto simp: map_add_Some_iff)
  next
    case False
    with Cons.prems show ?thesis
      unfolding t visit_all_Cons by (simp add: visit_present Cons.IH)
  qed
qed

lemma visit_all_keys:
  "fst ` set (providers (snd (visit_all factory ts (td, s)))) =
     fst ` set (providers s) \<union> key_of ` set ts"
proof (induction ts arbitrary: td s)
  case Nil
  show ?case by (simp add: visit_all_Nil)
next
  case (Cons t ts)
  obtain fld cp fn where t: "t = (fld, cp, fn)" by (cases t)
  show ?case
  proof (cases "map_of (providers s) (key_of (fld, cp, fn)) = None")
    case True
    show ?thesis
      unfolding t visit_all_Cons visit_absent [OF True]
      by (simp add: Cons.IH)
  next
    case False
    then have "key_of (fld, cp, fn) \<in> fst ` set (providers s)"
      by (simp add: map_of_eq_None_iff)
    with False show ?thesis
      unfolding t visit_all_Cons by (auto simp: visit_present Cons.IH)
  qed
qed

lemma visit_all_distinct:
  "distinct (map fst (providers s)) \<Longrightarrow>
     distinct (map fst (providers (snd (visit_all factory ts (td, s)))))"
proof (induction ts arbitrary: td s)
  case Nil
  then show ?case by (simp add: visit_all_Nil)
next
  case (Cons t ts)
  obtain fld cp fn where t: "t = (fld, cp, fn)" by (cases t)
  show ?case
  proof (cases "map_of (providers s) (key_of (fld, cp, fn)) = None")
    case True
    with Cons.prems show ?thesis
      unfolding t visit_all_Cons visit_absent [OF True]
      by (intro Cons.IH) (simp add: map_of_eq_None_iff)
  next
    case False
    with Cons.prems show ?thesis
      unfolding t visit_all_Cons by (simp add: visit_present Cons.IH)
  qed
qed

lemma visit_all_trace:
  "\<exists>evs. trace (snd (visit_all factory ts (td, s))) = trace s @ evs \<and>
         (\<forall>e \<in> set evs. \<exists>k n. e = Created k n \<and> k \<in> key_of ` set ts \<and>
                                map_of (providers s) k = None)"
proof (induction ts arbitrary: td s)
  case Nil
  show ?case by (simp add: visit_all_Nil)
next
  case (Cons t ts)
  obtain fld cp fn where t: "t = (fld, cp, fn)" by (cases t)
  let ?k = "key_of (fld, cp, fn)"
  show ?case
  proof (cases "map_of (providers s) ?k = None")
    case True
    let ?s1 = "snd (visit factory fld cp fn (td, s))"
    let ?td1 = "fst (visit factory fld cp fn (td, s))"
    from Cons.IH [of ?td1 ?s1] obtain evs where
      tr: "trace (snd (visit_all factory ts (?td1, ?s1))) = trace ?s1 @ evs"
      and ev: "\<forall>e \<in> set evs. \<exists>k n. e = Created k n \<and> k \<in> key_of ` set ts \<and>
                                map_of (providers ?s1) k = None"
      by blast
    have sub: "\<And>k. map_of (providers ?s1) k = None \<Longrightarrow> map_of (providers s) k = None"
      by (simp add: visit_absent [OF True] map_add_None)
    have "trace (snd (visit_all factory (t # ts) (td, s))) =
            trace s @ (Created ?k (nextOid s) # evs)"
      unfolding t visit_all_Cons using tr by (simp add: visit_absent [OF True])
    moreover have "\<forall>e \<in> set (Created ?k (nextOid s) # evs).
        \<exists>k n. e = Created k n \<and> k \<in> key_of ` set (t # ts) \<and> map_of (providers s) k = None"
      using ev sub True unfolding t by auto
    ultimately show ?thesis by blast
  next
    case False
    from Cons.IH [of "removeAll ?k td" s] obtain evs where
      tr: "trace (snd (visit_all factory ts (removeAll ?k td, s))) = trace s @ evs"
      and ev: "\<forall>e \<in> set evs. \<exists>k n. e = Created k n \<and> k \<in> key_of ` set ts \<and>
                                map_of (providers s) k = None"
      by blast
    have "trace (snd (visit_all factory (t # ts) (td, s))) = trace s @ evs"
      unfolding t visit_all_Cons using tr False by (simp add: visit_present)
    moreover have "\<forall>e \<in> set evs.
        \<exists>k n. e = Created k n \<and> k \<in> key_of ` set (t # ts) \<and> map_of (providers s) k = None"
      using ev by auto
    ultimately show ?thesis by blast
  qed
qed

lemma remove_all_providers:
  "providers (foldl remove_key s td) = filter (\<lambda>kv. fst kv \<notin> set td) (providers s)"
proof (induction td arbitrary: s)
  case Nil
  show ?case by simp
next
  case (Cons k td)
  have "providers (remove_key s k) = filter (\<lambda>kv. fst kv \<noteq> k) (providers s)"
  proof (cases "map_of (providers s) k")
    case None
    then have "k \<notin> fst ` set (providers s)" by (simp add: map_of_eq_None_iff)
    then have "filter (\<lambda>kv. fst kv \<noteq> k) (providers s) = providers s"
      by (auto simp: filter_id_conv)
    with None show ?thesis by (simp add: remove_key_def)
  next
    case (Some p)
    then show ?thesis
      by (simp add: remove_key_def AList.delete_eq case_prod_unfold) (metis)
  qed
  then show ?case by (simp add: Cons.IH conj_commute)
qed

lemma remove_all_trace:
  "distinct td \<Longrightarrow>
     trace (foldl remove_key s td) =
       trace s @ map (\<lambda>k. Disposed k (oid (the (map_of (providers s) k))))
                     (filter (\<lambda>k. map_of (providers s) k \<noteq> None) td)"
proof (induction td arbitrary: s)
  case Nil
  show ?case by simp
next
  case (Cons k td)
  then have d: "distinct td" and nk: "k \<notin> set td" by simp_all
  have other: "\<And>k'. k' \<in> set td \<Longrightarrow> map_of (providers (remove_key s k)) k' = map_of (providers s) k'"
    using nk by (auto simp: remove_key_def delete_conv' split: option.splits)
  have "trace (foldl remove_key (remove_key s k) td) =
          trace (remove_key s k) @
            map (\<lambda>k'. Disposed k' (oid (the (map_of (providers (remove_key s k)) k'))))
                (filter (\<lambda>k'. map_of (providers (remove_key s k)) k' \<noteq> None) td)"
    by (rule Cons.IH [OF d])
  also have "map (\<lambda>k'. Disposed k' (oid (the (map_of (providers (remove_key s k)) k'))))
                (filter (\<lambda>k'. map_of (providers (remove_key s k)) k' \<noteq> None) td) =
             map (\<lambda>k'. Disposed k' (oid (the (map_of (providers s) k'))))
                (filter (\<lambda>k'. map_of (providers s) k' \<noteq> None) td)"
    using other by (auto intro!: map_cong filter_cong)
  finally show ?case
    by (auto simp: remove_key_def split: option.splits)
qed

lemma remove_all_others:
  "nextOid (foldl remove_key s td) = nextOid s \<and> toDispose (foldl remove_key s td) = toDispose s"
  by (induction td arbitrary: s) (auto simp: remove_key_def split: option.splits)

section \<open>Helper facts about the queries and the first registry\<close>

lemma registry_one_folder:
  "registry factory [fld] =
     [(URI_resolve (URI_resolve (uri fld) ''.theia'') ''launch.json'',
       (factory \<lparr> folder = fld, configUri = URI_resolve (URI_resolve (uri fld) ''.theia'') ''launch.json'' \<rparr>)\<lparr> oid := 0 \<rparr>),
      (URI_resolve (URI_resolve (uri fld) ''.theia'') ''settings.json'',
       (factory \<lparr> folder = fld, configUri = URI_resolve (URI_resolve (uri fld) ''.theia'') ''settings.json'' \<rparr>)\<lparr> oid := 1 \<rparr>),
      (URI_resolve (URI_resolve (uri fld) ''.vscode'') ''launch.json'',
       (factory \<lparr> folder = fld, configUri = URI_resolve (URI_resolve (uri fld) ''.vscode'') ''launch.json'' \<rparr>)\<lparr> oid := 2 \<rparr>),
      (URI_resolve (URI_resolve (uri fld) ''.vscode'') ''settings.json'',
       (factory \<lparr> folder = fld, configUri = URI_resolve (URI_resolve (uri fld) ''.vscode'') ''settings.json'' \<rparr>)\<lparr> oid := 3 \<rparr>)]"
  by (simp add: registry_def updateProviders_def configPaths_def configFileNames_def visit_def
        initial_def createProvider_def URI_resolve_def Let_def)

lemma URI_parent_resolve:
  "CHR ''/'' \<notin> set seg \<Longrightarrow> URI_parent (URI_resolve u seg) = u"
  by (simp add: URI_parent_def URI_resolve_def dropWhile_append3 dropWhile_append)

lemma resolve_loop_find:
  "resolve_loop xs n r =
     (case find (\<lambda>p. fst (resolve_m p n r) \<noteq> Undefined \<and> fst (resolve_m p n r) \<noteq> Null) xs of
        None \<Rightarrow> (Undefined, None)
      | Some p \<Rightarrow> resolve_m p n r)"
  by (induction xs) (auto split: prod.splits)

lemma ranking_subset:
  "p \<in> set (ranking rel ps x) \<Longrightarrow> p \<in> snd ` set ps \<and> applicable rel x p"
  by (auto simp: ranking_def Let_def split: if_splits)

lemma ranking_one_group:
  "p \<in> set (ranking rel ps x) \<Longrightarrow> q \<in> set (ranking rel ps x) \<Longrightarrow>
     group_of x p = group_of x q \<and> rel (folderUri p) x = rel (folderUri q) x"
  by (auto simp: ranking_def Let_def split: if_splits)

lemma merge_find:
  "foldl (\<lambda>result provider. result ++ getPreferences_m provider) m (rev xs) k =
     (case find (\<lambda>p. getPreferences_m p k \<noteq> None) xs of
        None \<Rightarrow> m k
      | Some p \<Rightarrow> getPreferences_m p k)"
  by (induction xs) (auto simp: map_add_def split: option.splits)

lemma merge_dom:
  "dom (foldl (\<lambda>result provider. result ++ getPreferences_m provider) m ys) =
     dom m \<union> (\<Union>p \<in> set ys. dom (getPreferences_m p))"
  by (induction ys arbitrary: m) auto

lemma theia_vscode_differ [simp]:
  "URI_resolve u ''.theia'' \<noteq> URI_resolve u ''.vscode''"
  "URI_resolve u ''.vscode'' \<noteq> URI_resolve u ''.theia''"
  by (simp_all add: URI_resolve_def)

lemma ranked_one_folder:
  assumes "r \<noteq> []" and "0 \<le> rel (uri fld) r"
    and "\<And>cfg. folderUri (factory \<lparr> folder = fld, configUri = cfg \<rparr>) = uri fld"
    and "\<And>cfg. getConfigUri_m (factory \<lparr> folder = fld, configUri = cfg \<rparr>) (Some r) = Some cfg"
  shows "getProviders rel (registry factory [fld]) (Some r) =
     [(factory \<lparr> folder = fld, configUri = URI_resolve (URI_resolve (uri fld) ''.theia'') ''launch.json'' \<rparr>)\<lparr> oid := 0 \<rparr>,
      (factory \<lparr> folder = fld, configUri = URI_resolve (URI_resolve (uri fld) ''.theia'') ''settings.json'' \<rparr>)\<lparr> oid := 1 \<rparr>]"
  using assms
  by (simp add: registry_one_folder getProviders_def rank_step_def URI_parent_resolve Let_def)

lemma file_provider_folder:
  "folderUri (file_provider files \<lparr> folder = fld, configUri = cfg \<rparr>) = uri fld"
  by (simp add: file_provider_def)

lemma file_provider_applies:
  "0 \<le> depth_relativity (uri fld) r \<Longrightarrow>
     getConfigUri_m (file_provider files \<lparr> folder = fld, configUri = cfg \<rparr>) (Some r) = Some cfg"
  by (simp add: file_provider_def)

lemma x_under_a: "0 \<le> depth_relativity (uri folder_a) ''/root/a/x.ts''"
  by (simp add: depth_relativity_def folder_a_def)

lemma ranked_launch_and_settings:
  "getProviders depth_relativity (registry (file_provider files) [folder_a]) (Some ''/root/a/x.ts'') =
     [(file_provider files \<lparr> folder = folder_a, configUri = ''/root/a/.theia/launch.json'' \<rparr>)\<lparr> oid := 0 \<rparr>,
      (file_provider files \<lparr> folder = folder_a, configUri = ''/root/a/.theia/settings.json'' \<rparr>)\<lparr> oid := 1 \<rparr>]"
proof -
  have "getProviders depth_relativity (registry (file_provider files) [folder_a]) (Some ''/root/a/x.ts'') =
     [(file_provider files \<lparr> folder = folder_a, configUri = URI_resolve (URI_resolve (uri folder_a) ''.theia'') ''launch.json'' \<rparr>)\<lparr> oid := 0 \<rparr>,
      (file_provider files \<lparr> folder = folder_a, configUri = URI_resolve (URI_resolve (uri folder_a) ''.theia'') ''settings.json'' \<rparr>)\<lparr> oid := 1 \<rparr>]"
    by (rule ranked_one_folder)
       (simp_all add: x_under_a file_provider_folder file_provider_applies)
  then show ?thesis by (simp add: URI_resolve_def folder_a_def)
qed

section \<open>What one reconciliation does to the registry and the trace\<close>

lemma remove_all_trace_keys:
  "\<exists>evs. trace (foldl remove_key s td) = trace s @ evs \<and>
         (\<forall>e \<in> set evs. \<exists>k n. e = Disposed k n \<and> k \<in> set td)"
proof (induction td arbitrary: s)
  case Nil
  show ?case by simp
next
  case (Cons k td)
  from Cons.IH [of "remove_key s k"] obtain evs where
    tr: "trace (foldl remove_key (remove_key s k) td) = trace (remove_key s k) @ evs"
    and ev: "\<forall>e \<in> set evs. \<exists>k n. e = Disposed k n \<and> k \<in> set td"
    by blast
  show ?case
  proof (cases "map_of (providers s) k")
    case None
    then have "remove_key s k = s" by (simp add: remove_key_def)
    with tr have "trace (foldl remove_key s (k # td)) = trace s @ evs" by simp
    moreover from ev have "\<forall>e \<in> set evs. \<exists>k' n. e = Disposed k' n \<and> k' \<in> set (k # td)"
      by auto
    ultimately show ?thesis by blast
  next
    case (Some p)
    with tr have "trace (foldl remove_key s (k # td)) = trace s @ (Disposed k (oid p) # evs)"
      by (simp add: remove_key_def)
    moreover from ev have
      "\<forall>e \<in> set (Disposed k (oid p) # evs). \<exists>k' n. e = Disposed k' n \<and> k' \<in> set (k # td)"
      by auto
    ultimately show ?thesis by blast
  qed
qed

lemma map_of_filter_keys:
  "map_of (filter (\<lambda>kv. fst kv \<notin> T) ps) k = (if k \<in> T then None else map_of ps k)"
  by (induction ps) auto

lemma set_combinations:
  "set (combinations roots) = set roots \<times> set configPaths \<times> set configFileNames"
  by (auto simp: combinations_def)

lemma length_combinations: "length (combinations roots) = 4 * length roots"
  by (induction roots) (simp_all add: combinations_def configPaths_def configFileNames_def)

lemma key_of_injective:
  assumes "cp \<in> set configPaths" "cp' \<in> set configPaths"
    and "fn \<in> set configFileNames" "fn' \<in> set configFileNames"
    and "URI_resolve (URI_resolve u cp) fn = URI_resolve (URI_resolve u' cp') fn'"
  shows "u = u'"
proof -
  have a: "CHR ''/'' \<notin> set cp" "CHR ''/'' \<notin> set cp'"
    using assms(1,2) by (auto simp: configPaths_def)
  have b: "CHR ''/'' \<notin> set fn" "CHR ''/'' \<notin> set fn'"
    using assms(3,4) by (auto simp: configFileNames_def)
  have "URI_parent (URI_parent (URI_resolve (URI_resolve u cp) fn)) = u"
    by (simp add: URI_parent_resolve a b)
  moreover have "URI_parent (URI_parent (URI_resolve (URI_resolve u' cp') fn')) = u'"
    by (simp add: URI_parent_resolve a b)
  ultimately show ?thesis using assms(5) by simp
qed

lemma removed_folder_not_desired:
  assumes "uri fld \<notin> uri ` set roots" "cp \<in> set configPaths" "fn \<in> set configFileNames"
  shows "URI_resolve (URI_resolve (uri fld) cp) fn \<notin> set (desired roots)"
proof
  assume "URI_resolve (URI_resolve (uri fld) cp) fn \<in> set (desired roots)"
  then obtain fld' cp' fn' where
    m: "fld' \<in> set roots" "cp' \<in> set configPaths" "fn' \<in> set configFileNames"
    and e: "URI_resolve (URI_resolve (uri fld) cp) fn = URI_resolve (URI_resolve (uri fld') cp') fn'"
    by (auto simp: desired_def set_combinations key_of_def)
  from key_of_injective [OF assms(2) m(2) assms(3) m(3) e] have "uri fld = uri fld'" .
  with m(1) assms(1) show False by auto
qed

lemma current_folder_desired:
  assumes "fld \<in> set roots" "cp \<in> set configPaths" "fn \<in> set configFileNames"
  shows "URI_resolve (URI_resolve (uri fld) cp) fn \<in> set (desired roots)"
proof -
  from assms have "(fld, cp, fn) \<in> set (combinations roots)"
    by (simp add: set_combinations)
  then have "key_of (fld, cp, fn) \<in> set (desired roots)"
    unfolding desired_def by (simp only: set_map) (rule imageI)
  then show ?thesis by (simp add: key_of_def)
qed

lemma updateProviders_providers:
  "providers (updateProviders factory roots s) =
     filter (\<lambda>kv. fst kv \<notin> set (filter (\<lambda>k. k \<notin> set (desired roots)) (map fst (providers s))))
       (providers (snd (visit_all factory (combinations roots) (map fst (providers s), s))))"
  by (simp add: updateProviders_eq remove_all_providers visit_all_toDelete desired_def)

lemma keys_filter:
  "fst ` set (filter (\<lambda>kv. fst kv \<notin> T) ps) = fst ` set ps - T"
  by force

lemma updateProviders_keys:
  "fst ` set (providers (updateProviders factory roots s)) = set (desired roots)"
proof -
  have "fst ` set (providers (updateProviders factory roots s)) =
          (fst ` set (providers s) \<union> set (desired roots)) -
          set (filter (\<lambda>k. k \<notin> set (desired roots)) (map fst (providers s)))"
    unfolding updateProviders_providers keys_filter visit_all_keys
    by (simp only: desired_def set_map)
  also have "\<dots> = set (desired roots)" by auto
  finally show ?thesis .
qed

lemma updateProviders_distinct:
  "distinct (map fst (providers s)) \<Longrightarrow>
     distinct (map fst (providers (updateProviders factory roots s)))"
  unfolding updateProviders_providers
  by (intro distinct_map_filter visit_all_distinct)

lemma updateProviders_length:
  assumes "distinct (map fst (providers s))"
  shows "length (providers (updateProviders factory roots s)) \<le> 4 * length roots"
proof -
  let ?ps = "providers (updateProviders factory roots s)"
  have "length ?ps = length (map fst ?ps)" by simp
  also have "\<dots> = card (set (map fst ?ps))"
    using updateProviders_distinct [OF assms] by (simp only: distinct_card)
  also have "\<dots> = card (set (desired roots))"
    using updateProviders_keys [of factory roots s] by simp
  also have "\<dots> \<le> length (desired roots)" by (rule card_length)
  also have "\<dots> = 4 * length roots" by (simp add: desired_def length_combinations)
  finally show ?thesis .
qed

lemma one_entry_per_key:
  "distinct (map fst ps) \<Longrightarrow> k \<in> fst ` set ps \<Longrightarrow>
     length (filter (\<lambda>kv. fst kv = k) ps) = 1"
proof (induction ps)
  case Nil
  then show ?case by simp
next
  case (Cons kv ps)
  show ?case
  proof (cases "fst kv = k")
    case True
    with Cons.prems have "k \<notin> fst ` set ps" by auto
    then have "filter (\<lambda>kv. fst kv = k) ps = []"
      by (auto simp: filter_empty_conv)
    with True show ?thesis by simp
  next
    case False
    with Cons show ?thesis by auto
  qed
qed

lemma updateProviders_kept:
  assumes "k \<in> set (desired roots)" and "map_of (providers s) k = Some p"
  shows "map_of (providers (updateProviders factory roots s)) k = Some p"
proof -
  have "k \<notin> set (filter (\<lambda>k. k \<notin> set (desired roots)) (map fst (providers s)))"
    using assms(1) by simp
  then show ?thesis
    unfolding updateProviders_providers
    by (simp only: map_of_filter_keys if_False visit_all_preserves [OF assms(2)])
qed

lemma updateProviders_removed:
  assumes "k \<notin> set (desired roots)"
  shows "map_of (providers (updateProviders factory roots s)) k = None"
  using assms updateProviders_keys [of factory roots s]
  by (simp add: map_of_eq_None_iff)

lemma updateProviders_trace:
  assumes "distinct (map fst (providers s))"
  shows "\<exists>evs. trace (updateProviders factory roots s) =
           trace s @ evs @
             map (\<lambda>k. Disposed k (oid (the (map_of (providers s) k))))
                 (filter (\<lambda>k. k \<notin> set (desired roots)) (map fst (providers s))) \<and>
           (\<forall>e \<in> set evs. \<exists>k n. e = Created k n \<and> k \<in> set (desired roots) \<and>
                                  map_of (providers s) k = None)"
proof -
  let ?V = "visit_all factory (combinations roots) (map fst (providers s), s)"
  let ?td = "filter (\<lambda>k. k \<notin> set (desired roots)) (map fst (providers s))"
  have td: "fst ?V = ?td" by (simp add: visit_all_toDelete desired_def)
  have dtd: "distinct ?td" using assms by simp
  obtain evs where tr: "trace (snd ?V) = trace s @ evs"
    and ev: "\<forall>e \<in> set evs. \<exists>k n. e = Created k n \<and> k \<in> key_of ` set (combinations roots) \<and>
                                  map_of (providers s) k = None"
    using visit_all_trace [of factory "combinations roots" "map fst (providers s)" s] by blast
  have same: "\<And>k. k \<in> set ?td \<Longrightarrow> map_of (providers (snd ?V)) k = map_of (providers s) k"
  proof -
    fix k assume "k \<in> set ?td"
    then have "k \<in> fst ` set (providers s)" by auto
    then obtain p where "map_of (providers s) k = Some p"
      by (cases "map_of (providers s) k") (auto simp: map_of_eq_None_iff)
    then show "map_of (providers (snd ?V)) k = map_of (providers s) k"
      by (simp add: visit_all_preserves)
  qed
  have present: "\<And>k. k \<in> set ?td \<Longrightarrow> map_of (providers (snd ?V)) k \<noteq> None"
  proof -
    fix k assume k: "k \<in> set ?td"
    then have "k \<in> fst ` set (providers s)" by auto
    then have "map_of (providers s) k \<noteq> None" by (simp add: map_of_eq_None_iff)
    with same [OF k] show "map_of (providers (snd ?V)) k \<noteq> None" by simp
  qed
  have "trace (updateProviders factory roots s) =
          trace (snd ?V) @
            map (\<lambda>k. Disposed k (oid (the (map_of (providers (snd ?V)) k))))
                (filter (\<lambda>k. map_of (providers (snd ?V)) k \<noteq> None) ?td)"
    unfolding updateProviders_eq td by (rule remove_all_trace [OF dtd])
  also have "filter (\<lambda>k. map_of (providers (snd ?V)) k \<noteq> None) ?td = ?td"
    using present by (simp only: filter_id_conv) blast
  also have "map (\<lambda>k. Disposed k (oid (the (map_of (providers (snd ?V)) k)))) ?td =
             map (\<lambda>k. Disposed k (oid (the (map_of (providers s) k)))) ?td"
    using same by (intro map_cong) simp_all
  finally have "trace (updateProviders factory roots s) =
      trace s @ evs @ map (\<lambda>k. Disposed k (oid (the (map_of (providers s) k)))) ?td"
    by (simp add: tr)
  moreover from ev have "\<forall>e \<in> set evs. \<exists>k n. e = Created k n \<and> k \<in> set (desired roots) \<and>
                                  map_of (providers s) k = None"
    by (simp add: desired_def)
  ultimately show ?thesis by blast
qed

lemma disposed_once:
  "distinct td \<Longrightarrow>
     filter (\<lambda>e. event_key e = k) (map (\<lambda>k'. Disposed k' (g k')) td) =
       (if k \<in> set td then [Disposed k (g k)] else [])"
  by (induction td) auto

lemma run_events_key:
  assumes "distinct (map fst (providers s))" and "map_of (providers s) k = Some p"
  shows "prefix (trace s) (trace (updateProviders factory roots s)) \<and>
         filter (\<lambda>e. event_key e = k) (run_events s (updateProviders factory roots s)) =
           (if k \<in> set (desired roots) then [] else [Disposed k (oid p)])"
proof -
  let ?td = "filter (\<lambda>k. k \<notin> set (desired roots)) (map fst (providers s))"
  obtain evs where tr: "trace (updateProviders factory roots s) =
           trace s @ evs @ map (\<lambda>k. Disposed k (oid (the (map_of (providers s) k)))) ?td"
    and ev: "\<forall>e \<in> set evs. \<exists>k n. e = Created k n \<and> k \<in> set (desired roots) \<and>
                                  map_of (providers s) k = None"
    using updateProviders_trace [OF assms(1), of factory roots] by blast
  from ev assms(2) have "filter (\<lambda>e. event_key e = k) evs = []"
    by (auto simp: filter_empty_conv)
  moreover have "k \<in> fst ` set (providers s)"
    using assms(2) by (metis map_of_eq_None_iff option.distinct(1))
  moreover have "distinct ?td" using assms(1) by simp
  ultimately have "filter (\<lambda>e. event_key e = k) (run_events s (updateProviders factory roots s)) =
           (if k \<in> set (desired roots) then [] else [Disposed k (oid p)])"
    using assms(2) by (simp add: run_events_def tr disposed_once)
  moreover have "prefix (trace s) (trace (updateProviders factory roots s))"
    by (simp add: tr)
  ultimately show ?thesis by simp
qed

section \<open>Consistency of the trace with the registry\<close>

lemma replay_append:
  "replay m (es @ es') = (case replay m es of None \<Rightarrow> None | Some m' \<Rightarrow> replay m' es')"
  by (induction m es rule: replay.induct) auto

lemma map_of_oids:
  "map_of (map (\<lambda>kv. (fst kv, oid (snd kv))) ps) k = map_option oid (map_of ps k)"
  by (induction ps) auto

lemma delete_oids:
  "AList.delete k (map (\<lambda>kv. (fst kv, oid (snd kv))) ps) =
     map (\<lambda>kv. (fst kv, oid (snd kv))) (AList.delete k ps)"
  by (induction ps) auto

lemma visit_replay:
  assumes "replay [] (trace s) = Some (map (\<lambda>kv. (fst kv, oid (snd kv))) (providers s))"
  shows "replay [] (trace (snd (visit factory fld cp fn (td, s)))) =
           Some (map (\<lambda>kv. (fst kv, oid (snd kv))) (providers (snd (visit factory fld cp fn (td, s)))))"
proof (cases "map_of (providers s) (key_of (fld, cp, fn)) = None")
  case True
  with assms show ?thesis
    by (simp add: visit_absent replay_append map_of_oids)
next
  case False
  with assms show ?thesis by (simp add: visit_present)
qed

lemma visit_all_replay:
  assumes "replay [] (trace s) = Some (map (\<lambda>kv. (fst kv, oid (snd kv))) (providers s))"
  shows "replay [] (trace (snd (visit_all factory ts (td, s)))) =
           Some (map (\<lambda>kv. (fst kv, oid (snd kv))) (providers (snd (visit_all factory ts (td, s)))))"
  using assms
proof (induction ts arbitrary: td s)
  case Nil
  then show ?case by (simp add: visit_all_Nil)
next
  case (Cons t ts)
  obtain fld cp fn where t: "t = (fld, cp, fn)" by (cases t)
  obtain td1 s1 where v: "visit factory fld cp fn (td, s) = (td1, s1)"
    by (cases "visit factory fld cp fn (td, s)")
  from visit_replay [OF Cons.prems, of factory fld cp fn td] v
  have "replay [] (trace s1) = Some (map (\<lambda>kv. (fst kv, oid (snd kv))) (providers s1))"
    by simp
  from Cons.IH [OF this, of td1] show ?case
    unfolding t visit_all_Cons v .
qed

lemma remove_key_replay:
  assumes "replay [] (trace s) = Some (map (\<lambda>kv. (fst kv, oid (snd kv))) (providers s))"
  shows "replay [] (trace (remove_key s k)) =
           Some (map (\<lambda>kv. (fst kv, oid (snd kv))) (providers (remove_key s k)))"
  using assms
  by (cases "map_of (providers s) k")
     (simp_all add: remove_key_def replay_append map_of_oids delete_oids)

lemma remove_all_replay:
  assumes "replay [] (trace s) = Some (map (\<lambda>kv. (fst kv, oid (snd kv))) (providers s))"
  shows "replay [] (trace (foldl remove_key s td)) =
           Some (map (\<lambda>kv. (fst kv, oid (snd kv))) (providers (foldl remove_key s td)))"
  using assms by (induction td arbitrary: s) (simp_all add: remove_key_replay)

lemma updateProviders_consistent:
  assumes "consistent s"
  shows "consistent (updateProviders factory roots s)"
proof -
  from assms have d: "distinct (map fst (providers s))"
    and r: "replay [] (trace s) = Some (map (\<lambda>kv. (fst kv, oid (snd kv))) (providers s))"
    by (simp_all add: consistent_def)
  have "replay [] (trace (updateProviders factory roots s)) =
          Some (map (\<lambda>kv. (fst kv, oid (snd kv))) (providers (updateProviders factory roots s)))"
    unfolding updateProviders_eq
    by (intro remove_all_replay)
       (metis visit_all_replay [OF r] prod.collapse)
  with updateProviders_distinct [OF d] show ?thesis by (simp add: consistent_def)
qed

lemma initial_consistent: "consistent initial"
  by (simp add: consistent_def initial_def)

lemma history_consistent:
  "consistent (foldl (\<lambda>s roots. updateProviders factory roots s) initial history)"
  by (induction history rule: rev_induct)
     (simp_all add: initial_consistent updateProviders_consistent)

lemma registry_consistent: "distinct (map fst (registry factory roots))"
  using updateProviders_consistent [OF initial_consistent, of factory roots]
  by (simp add: consistent_def registry_def)

section \<open>Providers of folders that do not enclose the resource\<close>

lemma rank_step_outside:
  "rel (folderUri p) r < 0 \<Longrightarrow> rank_step rel r st p = st"
  by (cases st) (simp add: rank_step_eq applicable_def)

lemma rank_loop_related:
  assumes "list_all2 (\<lambda>p q. p = q \<or> (rel (folderUri p) r < 0 \<and> rel (folderUri q) r < 0)) xs ys"
  shows "foldl (rank_step rel r) st xs = foldl (rank_step rel r) st ys"
  using assms
proof (induction arbitrary: st rule: list_all2_induct)
  case Nil
  show ?case by simp
next
  case (Cons p xs q ys)
  then show ?case by (auto simp: rank_step_outside)
qed

lemma getProviders_related:
  assumes "list_all2 (\<lambda>kv kv'. kv = kv' \<or>
             (rel (folderUri (snd kv)) r < 0 \<and> rel (folderUri (snd kv')) r < 0)) ps ps'"
  shows "getProviders rel ps (Some r) = getProviders rel ps' (Some r)"
proof -
  from assms have
    "list_all2 (\<lambda>p q. p = q \<or> (rel (folderUri p) r < 0 \<and> rel (folderUri q) r < 0))
       (map snd ps) (map snd ps')"
    by (auto simp: list_all2_map1 list_all2_map2 elim!: list_all2_mono)
  then have "foldl (rank_step rel r) (- 1, []) (map snd ps) =
             foldl (rank_step rel r) (- 1, []) (map snd ps')"
    by (rule rank_loop_related)
  then show ?thesis by (simp add: getProviders_def)
qed

lemma getProviders_enclosing:
  "p \<in> set (getProviders rel ps resourceUri) \<Longrightarrow>
     \<exists>x. resourceUri = Some x \<and> 0 \<le> rel (folderUri p) x"
proof (cases resourceUri)
  case None
  assume "p \<in> set (getProviders rel ps resourceUri)"
  with None show ?thesis by (simp add: getProviders_def)
next
  case (Some x)
  assume p: "p \<in> set (getProviders rel ps resourceUri)"
  with Some have "x \<noteq> []" by (auto simp: getProviders_def)
  with p Some have "p \<in> set (ranking rel ps x)" by (simp add: getProviders_ranking)
  then have "applicable rel x p" by (simp add: ranking_subset)
  with Some show ?thesis by (simp add: applicable_def)
qed

lemma registry_two_folders:
  "registry factory [folder_a, folder_b] =
     [(''/root/a/.theia/launch.json'',
       (factory \<lparr> folder = folder_a, configUri = ''/root/a/.theia/launch.json'' \<rparr>)\<lparr> oid := 0 \<rparr>),
      (''/root/a/.theia/settings.json'',
       (factory \<lparr> folder = folder_a, configUri = ''/root/a/.theia/settings.json'' \<rparr>)\<lparr> oid := 1 \<rparr>),
      (''/root/a/.vscode/launch.json'',
       (factory \<lparr> folder = folder_a, configUri = ''/root/a/.vscode/launch.json'' \<rparr>)\<lparr> oid := 2 \<rparr>),
      (''/root/a/.vscode/settings.json'',
       (factory \<lparr> folder = folder_a, configUri = ''/root/a/.vscode/settings.json'' \<rparr>)\<lparr> oid := 3 \<rparr>),
      (''/root/b/.theia/launch.json'',
       (factory \<lparr> folder = folder_b, configUri = ''/root/b/.theia/launch.json'' \<rparr>)\<lparr> oid := 4 \<rparr>),
      (''/root/b/.theia/settings.json'',
       (factory \<lparr> folder = folder_b, configUri = ''/root/b/.theia/settings.json'' \<rparr>)\<lparr> oid := 5 \<rparr>),
      (''/root/b/.vscode/launch.json'',
       (factory \<lparr> folder = folder_b, configUri = ''/root/b/.vscode/launch.json'' \<rparr>)\<lparr> oid := 6 \<rparr>),
      (''/root/b/.vscode/settings.json'',
       (factory \<lparr> folder = folder_b, configUri = ''/root/b/.vscode/settings.json'' \<rparr>)\<lparr> oid := 7 \<rparr>)]"
  by (simp add: registry_def updateProviders_def configPaths_def configFileNames_def visit_def
        initial_def createProvider_def URI_resolve_def Let_def folder_a_def folder_b_def)

lemma file_provider_same_file:
  "map_of files cfg = map_of files' cfg \<Longrightarrow>
     file_provider files \<lparr> folder = fld, configUri = cfg \<rparr> =
     file_provider files' \<lparr> folder = fld, configUri = cfg \<rparr>"
  by (simp add: file_provider_def)

lemma x_outside_b: "depth_relativity (uri folder_b) ''/root/a/x.ts'' < 0"
  by (simp add: depth_relativity_def folder_b_def)

section \<open>Promises and the fields reconciliation leaves alone\<close>

lemma Promise_all_caught:
  "Promise_all (map catch_error rs) = Fulfilled \<longleftrightarrow> Pending \<notin> set rs"
proof -
  have a: "\<not> list_ex (\<lambda>p. case p of Rejected e \<Rightarrow> True | _ \<Rightarrow> False) (map catch_error rs)"
    by (auto simp: list_ex_iff catch_error_def split: promise.splits)
  have b: "list_ex (\<lambda>p. p = Pending) (map catch_error rs) \<longleftrightarrow> Pending \<in> set rs"
    by (induction rs) (auto simp: catch_error_def split: promise.splits)
  show ?thesis by (simp add: Promise_all_def a b)
qed

lemma printed_all:
  "set (concat (map printed rs)) = {e. Rejected e \<in> set rs}"
  by (induction rs) (auto simp: printed_def split: promise.splits)

lemma visit_ready:
  "ready_deferred (snd (visit factory fld cp fn st)) = ready_deferred (snd st) \<and>
   console (snd (visit factory fld cp fn st)) = console (snd st)"
  by (cases st) (simp add: visit_def createProvider_def Let_def)

lemma visit_all_ready:
  "ready_deferred (snd (visit_all factory ts st)) = ready_deferred (snd st) \<and>
   console (snd (visit_all factory ts st)) = console (snd st)"
proof (induction ts arbitrary: st)
  case Nil
  show ?case by (simp add: visit_all_Nil)
next
  case (Cons t ts)
  obtain fld cp fn where t: "t = (fld, cp, fn)" by (cases t)
  show ?case
    unfolding t visit_all_Cons by (simp add: Cons.IH visit_ready)
qed

lemma remove_all_ready:
  "ready_deferred (foldl remove_key s td) = ready_deferred s \<and>
   console (foldl remove_key s td) = console s"
  by (induction td arbitrary: s) (auto simp: remove_key_def split: option.splits)

lemma updateProviders_ready:
  "ready_deferred (updateProviders factory roots s) = ready_deferred s \<and>
   console (updateProviders factory roots s) = console s"
  by (simp add: updateProviders_eq remove_all_ready visit_all_ready)

section \<open>The claims about the queries\<close>

text \<open>
  C10: for every key and value, \<open>setPreference\<close> without a resource URI resolves to
  \<open>false\<close> and calls no provider's \<open>setPreference\<close>: the list of calls is empty.
\<close>

theorem setPreference_without_resource:
  "setPreference rel ps preferenceName v None = ([], Inr False)"
  by (simp add: setPreference_def getProviders_def)

theorem setPreference_without_resource_witness:
  "setPreference depth_relativity (registry (file_provider launch_and_settings) [folder_a])
     ''x'' 5 None = ([], Inr False)"
  by (rule setPreference_without_resource)

text \<open>
  C1: one call of \<open>setPreference\<close> writes to at most one provider. The providers called
  are an initial segment of the ranked list, each with the outcome of its own write; every
  call but the last reported \<open>false\<close>, so at most one call reported success and it is the
  last one; the call resolves to \<open>true\<close> exactly when its last call reported success; and
  when the first ranked provider (the launch file's) reports success, it is the only
  provider called. The call reaches the first provider whose write reports success: when
  the ranked providers before it all report \<open>false\<close>, exactly they and it are called, in
  order, and the call resolves to \<open>true\<close>. When that first provider without a \<open>false\<close>
  rejects instead, the call rejects with its reason after the same calls; when every
  ranked provider reports \<open>false\<close>, all are called and the call resolves to \<open>false\<close>.
\<close>

theorem setPreference_single_write:
  "fst (setPreference rel ps preferenceName v resourceUri) =
     map (\<lambda>p. (p, setPreference_m p preferenceName v resourceUri))
       (take (length (fst (setPreference rel ps preferenceName v resourceUri)))
          (getProviders rel ps resourceUri))
   \<and> (\<forall>c \<in> set (butlast (fst (setPreference rel ps preferenceName v resourceUri))).
         snd c = Returned False)
   \<and> length (filter (\<lambda>c. snd c = Returned True)
               (fst (setPreference rel ps preferenceName v resourceUri))) \<le> 1
   \<and> (snd (setPreference rel ps preferenceName v resourceUri) = Inr True \<longleftrightarrow>
        fst (setPreference rel ps preferenceName v resourceUri) \<noteq> [] \<and>
        snd (last (fst (setPreference rel ps preferenceName v resourceUri))) = Returned True)
   \<and> (\<forall>p rest. getProviders rel ps resourceUri = p # rest \<and>
                 setPreference_m p preferenceName v resourceUri = Returned True \<longrightarrow>
                 setPreference rel ps preferenceName v resourceUri = ([(p, Returned True)], Inr True))
   \<and> (\<forall>pre p rest.
         getProviders rel ps resourceUri = pre @ p # rest \<and>
         (\<forall>q \<in> set pre. setPreference_m q preferenceName v resourceUri = Returned False) \<and>
         setPreference_m p preferenceName v resourceUri = Returned True \<longrightarrow>
         setPreference rel ps preferenceName v resourceUri =
           (map (\<lambda>q. (q, Returned False)) pre @ [(p, Returned True)], Inr True))
   \<and> (\<forall>pre p rest e.
         getProviders rel ps resourceUri = pre @ p # rest \<and>
         (\<forall>q \<in> set pre. setPreference_m q preferenceName v resourceUri = Returned False) \<and>
         setPreference_m p preferenceName v resourceUri = Threw e \<longrightarrow>
         setPreference rel ps preferenceName v resourceUri =
           (map (\<lambda>q. (q, Returned False)) pre @ [(p, Threw e)], Inl e))
   \<and> ((\<forall>q \<in> set (getProviders rel ps resourceUri).
          setPreference_m q preferenceName v resourceUri = Returned False) \<longrightarrow>
       setPreference rel ps preferenceName v resourceUri =
         (map (\<lambda>q. (q, Returned False)) (getProviders rel ps resourceUri), Inr False))"
proof (intro conjI ballI allI impI)
  show "fst (setPreference rel ps preferenceName v resourceUri) =
     map (\<lambda>p. (p, setPreference_m p preferenceName v resourceUri))
       (take (length (fst (setPreference rel ps preferenceName v resourceUri)))
          (getProviders rel ps resourceUri))"
    unfolding setPreference_def by (rule setPreference_loop_calls)
next
  fix c assume "c \<in> set (butlast (fst (setPreference rel ps preferenceName v resourceUri)))"
  then show "snd c = Returned False"
    unfolding setPreference_def by (rule setPreference_loop_butlast)
next
  show "length (filter (\<lambda>c. snd c = Returned True)
               (fst (setPreference rel ps preferenceName v resourceUri))) \<le> 1"
    unfolding setPreference_def by (rule setPreference_loop_success_count)
next
  show "snd (setPreference rel ps preferenceName v resourceUri) = Inr True \<longleftrightarrow>
        fst (setPreference rel ps preferenceName v resourceUri) \<noteq> [] \<and>
        snd (last (fst (setPreference rel ps preferenceName v resourceUri))) = Returned True"
    unfolding setPreference_def by (rule setPreference_loop_result)
next
  fix p rest
  assume "getProviders rel ps resourceUri = p # rest \<and>
          setPreference_m p preferenceName v resourceUri = Returned True"
  then show "setPreference rel ps preferenceName v resourceUri = ([(p, Returned True)], Inr True)"
    by (simp add: setPreference_def)
next
  fix pre p rest
  assume "getProviders rel ps resourceUri = pre @ p # rest \<and>
         (\<forall>q \<in> set pre. setPreference_m q preferenceName v resourceUri = Returned False) \<and>
         setPreference_m p preferenceName v resourceUri = Returned True"
  then have g: "getProviders rel ps resourceUri = pre @ p # rest"
    and f: "\<forall>q \<in> set pre. setPreference_m q preferenceName v resourceUri = Returned False"
    and t: "setPreference_m p preferenceName v resourceUri = Returned True"
    by blast+
  show "setPreference rel ps preferenceName v resourceUri =
           (map (\<lambda>q. (q, Returned False)) pre @ [(p, Returned True)], Inr True)"
    unfolding setPreference_def g by (rule setPreference_loop_success [OF f t])
next
  fix pre p rest e
  assume "getProviders rel ps resourceUri = pre @ p # rest \<and>
         (\<forall>q \<in> set pre. setPreference_m q preferenceName v resourceUri = Returned False) \<and>
         setPreference_m p preferenceName v resourceUri = Threw e"
  then have g: "getProviders rel ps resourceUri = pre @ p # rest"
    and f: "\<forall>q \<in> set pre. setPreference_m q preferenceName v resourceUri = Returned False"
    and t: "setPreference_m p preferenceName v resourceUri = Threw e"
    by blast+
  show "setPreference rel ps preferenceName v resourceUri =
           (map (\<lambda>q. (q, Returned False)) pre @ [(p, Threw e)], Inl e)"
    unfolding setPreference_def g by (rule setPreference_loop_threw [OF f t])
next
  assume f: "\<forall>q \<in> set (getProviders rel ps resourceUri).
          setPreference_m q preferenceName v resourceUri = Returned False"
  show "setPreference rel ps preferenceName v resourceUri =
         (map (\<lambda>q. (q, Returned False)) (getProviders rel ps resourceUri), Inr False)"
    unfolding setPreference_def by (rule setPreference_loop_all_failed [OF f])
qed

theorem setPreference_single_write_witness:
  "map (\<lambda>c. (oid (fst c), snd c))
     (fst (setPreference depth_relativity (registry (file_provider launch_and_settings) [folder_a])
             ''x'' 5 (Some ''/root/a/x.ts''))) = [(0, Returned True)]
   \<and> snd (setPreference depth_relativity (registry (file_provider launch_and_settings) [folder_a])
             ''x'' 5 (Some ''/root/a/x.ts'')) = Inr True
   \<and> map (\<lambda>c. (oid (fst c), snd c))
     (fst (setPreference depth_relativity (registry (file_provider theia_and_vscode) [folder_a])
             ''x'' 5 (Some ''/root/a/x.ts''))) = [(0, Returned False), (1, Returned True)]
   \<and> snd (setPreference depth_relativity (registry (file_provider theia_and_vscode) [folder_a])
             ''x'' 5 (Some ''/root/a/x.ts'')) = Inr True
   \<and> map (\<lambda>c. (oid (fst c), snd c))
     (fst (setPreference depth_relativity (registry (file_provider vscode_only) [folder_a])
             ''x'' 5 (Some ''/root/a/x.ts''))) = [(0, Returned False), (1, Returned False)]
   \<and> snd (setPreference depth_relativity (registry (file_provider vscode_only) [folder_a])
             ''x'' 5 (Some ''/root/a/x.ts'')) = Inr False"
proof -
  let ?r = "Some ''/root/a/x.ts''"
  let ?launch = "\<lambda>files :: (URI \<times> (string \<times> int) list) list. (file_provider files
                    \<lparr> folder = folder_a, configUri = ''/root/a/.theia/launch.json'' \<rparr>)\<lparr> oid := 0 \<rparr>"
  let ?settings = "\<lambda>files :: (URI \<times> (string \<times> int) list) list. (file_provider files
                    \<lparr> folder = folder_a, configUri = ''/root/a/.theia/settings.json'' \<rparr>)\<lparr> oid := 1 \<rparr>"
  have w1: "setPreference_m (?launch launch_and_settings) ''x'' 5 ?r = Returned True"
    by (simp add: file_provider_def launch_and_settings_def)
  have a: "setPreference depth_relativity (registry (file_provider launch_and_settings) [folder_a])
          ''x'' 5 ?r = ([(?launch launch_and_settings, Returned True)], Inr True)"
    using setPreference_single_write [of depth_relativity
            "registry (file_provider launch_and_settings) [folder_a]" "''x''" 5 ?r]
          ranked_launch_and_settings [of launch_and_settings] w1
    by blast
  have w2: "\<forall>q \<in> set [?launch theia_and_vscode]. setPreference_m q ''x'' 5 ?r = Returned False"
    "setPreference_m (?settings theia_and_vscode) ''x'' 5 ?r = Returned True"
    by (simp_all add: file_provider_def theia_and_vscode_def)
  have r2: "getProviders depth_relativity (registry (file_provider theia_and_vscode) [folder_a]) ?r =
              [?launch theia_and_vscode] @ ?settings theia_and_vscode # []"
    by (simp add: ranked_launch_and_settings)
  have b: "setPreference depth_relativity (registry (file_provider theia_and_vscode) [folder_a])
          ''x'' 5 ?r =
            (map (\<lambda>q. (q, Returned False)) [?launch theia_and_vscode] @
               [(?settings theia_and_vscode, Returned True)], Inr True)"
    using setPreference_single_write [of depth_relativity
            "registry (file_provider theia_and_vscode) [folder_a]" "''x''" 5 ?r] r2 w2
    by blast
  have w3: "\<forall>q \<in> set (getProviders depth_relativity (registry (file_provider vscode_only) [folder_a]) ?r).
              setPreference_m q ''x'' 5 ?r = Returned False"
    by (simp add: ranked_launch_and_settings file_provider_def vscode_only_def)
  have c: "setPreference depth_relativity (registry (file_provider vscode_only) [folder_a])
          ''x'' 5 ?r =
            (map (\<lambda>q. (q, Returned False))
               (getProviders depth_relativity (registry (file_provider vscode_only) [folder_a]) ?r),
             Inr False)"
    using setPreference_single_write [of depth_relativity
            "registry (file_provider vscode_only) [folder_a]" "''x''" 5 ?r] w3
    by blast
  show ?thesis
    by (simp add: a b c ranked_launch_and_settings)
qed

text \<open>
  C3: \<open>resolve\<close> returns what the first provider of the ranked list with a value other
  than \<open>undefined\<close> and \<open>null\<close> returns (the value and the URI of its config file), and the
  empty result when no ranked provider has such a value, whatever the other providers of
  the registry hold. The ranked list is the ranking of the spec, and all its providers are
  in one directory-group at one relativity.
\<close>

theorem resolve_first_defined:
  "resolve rel ps preferenceName resourceUri =
     (case find (\<lambda>p. fst (resolve_m p preferenceName resourceUri) \<noteq> Undefined \<and>
                     fst (resolve_m p preferenceName resourceUri) \<noteq> Null)
                (getProviders rel ps resourceUri) of
        None \<Rightarrow> (Undefined, None)
      | Some p \<Rightarrow> resolve_m p preferenceName resourceUri)
   \<and> ((\<forall>p \<in> set (getProviders rel ps resourceUri).
          fst (resolve_m p preferenceName resourceUri) = Undefined \<or>
          fst (resolve_m p preferenceName resourceUri) = Null) \<longrightarrow>
        resolve rel ps preferenceName resourceUri = (Undefined, None))
   \<and> (\<forall>x. resourceUri = Some x \<and> x \<noteq> [] \<longrightarrow>
          getProviders rel ps resourceUri = ranking rel ps x \<and>
          (\<forall>p \<in> set (getProviders rel ps resourceUri). \<forall>q \<in> set (getProviders rel ps resourceUri).
             group_of x p = group_of x q \<and> rel (folderUri p) x = rel (folderUri q) x))"
proof (intro conjI allI impI)
  show "resolve rel ps preferenceName resourceUri =
     (case find (\<lambda>p. fst (resolve_m p preferenceName resourceUri) \<noteq> Undefined \<and>
                     fst (resolve_m p preferenceName resourceUri) \<noteq> Null)
                (getProviders rel ps resourceUri) of
        None \<Rightarrow> (Undefined, None)
      | Some p \<Rightarrow> resolve_m p preferenceName resourceUri)"
    by (simp add: resolve_def resolve_loop_find)
next
  assume "\<forall>p \<in> set (getProviders rel ps resourceUri).
          fst (resolve_m p preferenceName resourceUri) = Undefined \<or>
          fst (resolve_m p preferenceName resourceUri) = Null"
  then have "find (\<lambda>p. fst (resolve_m p preferenceName resourceUri) \<noteq> Undefined \<and>
                     fst (resolve_m p preferenceName resourceUri) \<noteq> Null)
                (getProviders rel ps resourceUri) = None"
    by (auto simp: find_None_iff)
  then show "resolve rel ps preferenceName resourceUri = (Undefined, None)"
    by (simp add: resolve_def resolve_loop_find)
next
  fix x assume "resourceUri = Some x \<and> x \<noteq> []"
  then show "getProviders rel ps resourceUri = ranking rel ps x"
    by (simp add: getProviders_ranking)
next
  fix x assume "resourceUri = Some x \<and> x \<noteq> []"
  then have "getProviders rel ps resourceUri = ranking rel ps x"
    by (simp add: getProviders_ranking)
  then show "\<forall>p \<in> set (getProviders rel ps resourceUri). \<forall>q \<in> set (getProviders rel ps resourceUri).
             group_of x p = group_of x q \<and> rel (folderUri p) x = rel (folderUri q) x"
    by (simp only:) (blast dest: ranking_one_group)
qed

theorem resolve_first_defined_witness:
  "resolve depth_relativity (registry (file_provider vscode_only) [folder_a])
     ''key'' (Some ''/root/a/x.ts'') = (Undefined, None)
   \<and> fst (resolve_m (snd (registry (file_provider vscode_only) [folder_a] ! 3))
            ''key'' (Some ''/root/a/x.ts'')) = Val 2"
proof -
  have "\<forall>p \<in> set (getProviders depth_relativity (registry (file_provider vscode_only) [folder_a])
                      (Some ''/root/a/x.ts'')).
          fst (resolve_m p ''key'' (Some ''/root/a/x.ts'')) = Undefined \<or>
          fst (resolve_m p ''key'' (Some ''/root/a/x.ts'')) = Null"
    by (simp add: ranked_launch_and_settings file_provider_def vscode_only_def)
  then have "resolve depth_relativity (registry (file_provider vscode_only) [folder_a])
     ''key'' (Some ''/root/a/x.ts'') = (Undefined, None)"
    using resolve_first_defined [of depth_relativity "registry (file_provider vscode_only) [folder_a]"
            "''key''" "Some ''/root/a/x.ts''"]
    by blast
  moreover have "fst (resolve_m (snd (registry (file_provider vscode_only) [folder_a] ! 3))
            ''key'' (Some ''/root/a/x.ts'')) = Val 2"
    by (simp add: registry_one_folder file_provider_def vscode_only_def URI_resolve_def folder_a_def)
  ultimately show ?thesis by simp
qed

text \<open>
  C5: \<open>getPreferences\<close> merges the preferences of the ranked providers from the last to the
  first, so a key has the value of the first ranked provider that defines it (the higher
  priority wins a collision) and the keys of the result are the union of the providers'
  keys. A launch file \<open>{a:1}\<close> and a settings file \<open>{a:2,b:3}\<close> give \<open>{a:1,b:3}\<close>.
\<close>

theorem getPreferences_merge:
  "getPreferences rel ps resourceUri k =
     (case find (\<lambda>p. getPreferences_m p k \<noteq> None) (getProviders rel ps resourceUri) of
        None \<Rightarrow> None
      | Some p \<Rightarrow> getPreferences_m p k)
   \<and> dom (getPreferences rel ps resourceUri) =
       (\<Union>p \<in> set (getProviders rel ps resourceUri). dom (getPreferences_m p))"
  by (simp add: getPreferences_def merge_find merge_dom)

theorem getPreferences_merge_witness:
  "getPreferences depth_relativity (registry (file_provider launch_and_settings) [folder_a])
     (Some ''/root/a/x.ts'') = [''a'' \<mapsto> 1, ''b'' \<mapsto> 3]"
proof
  fix k
  show "getPreferences depth_relativity (registry (file_provider launch_and_settings) [folder_a])
     (Some ''/root/a/x.ts'') k = [''a'' \<mapsto> 1, ''b'' \<mapsto> 3] k"
    using getPreferences_merge [of depth_relativity
            "registry (file_provider launch_and_settings) [folder_a]" "Some ''/root/a/x.ts''" k]
    by (simp add: ranked_launch_and_settings file_provider_def launch_and_settings_def)
qed



text \<open>
  C6: two registries that differ only in providers whose folder does not enclose the
  resource (relativity below 0, as for \<open>/root/b\<close> and a resource under \<open>/root/a\<close>) give the
  same ranked list and the same result of \<open>resolve\<close>, whatever those providers hold; every
  ranked provider's folder encloses the resource.
\<close>

theorem resolve_ignores_other_folders:
  assumes "list_all2 (\<lambda>kv kv'. kv = kv' \<or>
             (rel (folderUri (snd kv)) r < 0 \<and> rel (folderUri (snd kv')) r < 0)) ps ps'"
  shows "resolve rel ps preferenceName (Some r) = resolve rel ps' preferenceName (Some r)
       \<and> getProviders rel ps (Some r) = getProviders rel ps' (Some r)
       \<and> (\<forall>p \<in> set (getProviders rel ps (Some r)). 0 \<le> rel (folderUri p) r)"
proof -
  have eq: "getProviders rel ps (Some r) = getProviders rel ps' (Some r)"
    using assms by (rule getProviders_related [of rel r ps ps'])
  then have "resolve rel ps preferenceName (Some r) = resolve rel ps' preferenceName (Some r)"
    by (simp add: resolve_def)
  moreover have "\<forall>p \<in> set (getProviders rel ps (Some r)). 0 \<le> rel (folderUri p) r"
    using getProviders_enclosing [of _ rel ps "Some r"] by auto
  ultimately show ?thesis using eq by simp
qed

theorem resolve_ignores_other_folders_witness:
  "resolve depth_relativity (registry (file_provider siblings_7) [folder_a, folder_b])
      ''key'' (Some ''/root/a/x.ts'') =
   resolve depth_relativity (registry (file_provider siblings_8) [folder_a, folder_b])
      ''key'' (Some ''/root/a/x.ts'')
   \<and> fst (resolve_m (snd (registry (file_provider siblings_7) [folder_a, folder_b] ! 5)) ''key'' None) = Val 7
   \<and> fst (resolve_m (snd (registry (file_provider siblings_8) [folder_a, folder_b] ! 5)) ''key'' None) = Val 8"
proof -
  have same:
    "\<And>cfg. cfg \<noteq> ''/root/b/.theia/settings.json'' \<Longrightarrow>
       file_provider siblings_7 \<lparr> folder = folder_a, configUri = cfg \<rparr> =
       file_provider siblings_8 \<lparr> folder = folder_a, configUri = cfg \<rparr>"
    by (rule file_provider_same_file) (simp add: siblings_7_def siblings_8_def)
  have rel: "list_all2 (\<lambda>kv kv'. kv = kv' \<or>
             (depth_relativity (folderUri (snd kv)) ''/root/a/x.ts'' < 0 \<and>
              depth_relativity (folderUri (snd kv')) ''/root/a/x.ts'' < 0))
           (registry (file_provider siblings_7) [folder_a, folder_b])
           (registry (file_provider siblings_8) [folder_a, folder_b])"
    using x_outside_b
    by (simp add: registry_two_folders same file_provider_folder)
  have "resolve depth_relativity (registry (file_provider siblings_7) [folder_a, folder_b])
      ''key'' (Some ''/root/a/x.ts'') =
   resolve depth_relativity (registry (file_provider siblings_8) [folder_a, folder_b])
      ''key'' (Some ''/root/a/x.ts'')"
    using rel resolve_ignores_other_folders [of depth_relativity "''/root/a/x.ts''"
            "registry (file_provider siblings_7) [folder_a, folder_b]"
            "registry (file_provider siblings_8) [folder_a, folder_b]" "''key''"]
    by blast
  moreover have "fst (resolve_m (snd (registry (file_provider siblings_7) [folder_a, folder_b] ! 5)) ''key'' None) = Val 7"
    by (simp add: registry_two_folders file_provider_def siblings_7_def)
  moreover have "fst (resolve_m (snd (registry (file_provider siblings_8) [folder_a, folder_b] ! 5)) ''key'' None) = Val 8"
    by (simp add: registry_two_folders file_provider_def siblings_8_def)
  ultimately show ?thesis by blast
qed

section \<open>The claim about readiness\<close>

text \<open>
  C9: when the workspace roots have resolved, \<open>init\<close> resolves \<open>_ready\<close> exactly when the
  readiness of every provider registered by its reconciliation has settled, fulfilled or
  rejected; \<open>_ready\<close> is never rejected, and the reason of every rejected readiness is
  printed on the console.
\<close>

theorem init_ready:
  assumes "rootsPromise = Fulfilled" and "ready_deferred s = Pending"
  shows "providers (init factory rootsPromise roots s) = providers (updateProviders factory roots s)
       \<and> (ready_deferred (init factory rootsPromise roots s) = Fulfilled \<longleftrightarrow>
            (\<forall>kv \<in> set (providers (init factory rootsPromise roots s)). ready (snd kv) \<noteq> Pending))
       \<and> (ready_deferred (init factory rootsPromise roots s) = Fulfilled \<or>
          ready_deferred (init factory rootsPromise roots s) = Pending)
       \<and> (\<forall>kv \<in> set (providers (init factory rootsPromise roots s)). \<forall>e.
             ready (snd kv) = Rejected e \<longrightarrow> e \<in> set (console (init factory rootsPromise roots s)))"
proof -
  let ?s1 = "updateProviders factory roots s"
  let ?rs = "map (\<lambda>kv. ready (snd kv)) (providers ?s1)"
  have i: "init factory rootsPromise roots s =
             ?s1\<lparr> console := console ?s1 @ concat (map printed ?rs),
                  ready_deferred := (if Pending \<notin> set ?rs then Fulfilled else Pending) \<rparr>"
    using assms by (simp add: init_def Let_def Promise_all_caught updateProviders_ready)
  have p: "providers (init factory rootsPromise roots s) = providers ?s1"
    by (simp add: i)
  have r: "ready_deferred (init factory rootsPromise roots s) = Fulfilled \<longleftrightarrow>
             (\<forall>kv \<in> set (providers ?s1). ready (snd kv) \<noteq> Pending)"
    by (simp add: i image_iff) force
  have c: "\<forall>kv \<in> set (providers ?s1). \<forall>e.
             ready (snd kv) = Rejected e \<longrightarrow> e \<in> set (console (init factory rootsPromise roots s))"
  proof (intro ballI allI impI)
    fix kv e assume "kv \<in> set (providers ?s1)" and "ready (snd kv) = Rejected e"
    then have "Rejected e \<in> set ?rs" by force
    then have "e \<in> set (concat (map printed ?rs))" by (simp only: printed_all) simp
    then show "e \<in> set (console (init factory rootsPromise roots s))" by (simp add: i)
  qed
  have d: "ready_deferred (init factory rootsPromise roots s) = Fulfilled \<or>
          ready_deferred (init factory rootsPromise roots s) = Pending"
    by (simp add: i)
  show ?thesis using p r c d by simp
qed

theorem init_ready_witness:
  "ready_deferred (init (unreadable_provider launch_and_settings [''/root/a/.theia/settings.json''])
      Fulfilled [folder_a] initial) = Fulfilled
   \<and> console (init (unreadable_provider launch_and_settings [''/root/a/.theia/settings.json''])
      Fulfilled [folder_a] initial) = [''unreadable'']"
proof -
  let ?f = "unreadable_provider launch_and_settings [''/root/a/.theia/settings.json'']"
  have reg: "providers (updateProviders ?f [folder_a] initial) = registry ?f [folder_a]"
    by (simp add: registry_def)
  have p: "ready_deferred (initial :: int FoldersPreferencesProvider) = Pending"
    by (simp add: initial_def)
  have "\<forall>kv \<in> set (registry ?f [folder_a]). ready (snd kv) \<noteq> Pending"
    by (simp add: registry_one_folder unreadable_provider_def)
  then have "ready_deferred (init ?f Fulfilled [folder_a] initial) = Fulfilled"
    using init_ready [of Fulfilled initial ?f "[folder_a]", OF refl p] reg by simp
  moreover have "console (init ?f Fulfilled [folder_a] initial) =
      console (initial :: int FoldersPreferencesProvider) @
        concat (map printed (map (\<lambda>kv. ready (snd kv)) (registry ?f [folder_a])))"
    by (simp add: init_def Let_def reg updateProviders_ready)
  moreover have "console (initial :: int FoldersPreferencesProvider) @
        concat (map printed (map (\<lambda>kv. ready (snd kv)) (registry ?f [folder_a]))) = [''unreadable'']"
    by (simp add: registry_one_folder unreadable_provider_def printed_def initial_def
          URI_resolve_def folder_a_def)
  ultimately show ?thesis by simp
qed

section \<open>The claims about reconciliation\<close>

text \<open>
  C2: after \<open>updateProviders\<close> on a registry with distinct keys (as every \<open>Map\<close> has) the
  keys are distinct again, they are exactly the identities of the desired set, the registry
  holds at most four providers per current folder, and for every combination of a current
  folder, a config directory and a config file exactly one entry has its identity.
\<close>

theorem updateProviders_registry:
  assumes "distinct (map fst (providers s))"
  shows "distinct (map fst (providers (updateProviders factory roots s)))
       \<and> fst ` set (providers (updateProviders factory roots s)) = set (desired roots)
       \<and> length (providers (updateProviders factory roots s)) \<le> 4 * length roots
       \<and> (\<forall>fld \<in> set roots. \<forall>cp \<in> set configPaths. \<forall>fn \<in> set configFileNames.
             length (filter (\<lambda>kv. fst kv = URI_resolve (URI_resolve (uri fld) cp) fn)
                       (providers (updateProviders factory roots s))) = 1)"
proof (intro conjI ballI)
  show d: "distinct (map fst (providers (updateProviders factory roots s)))"
    using assms by (rule updateProviders_distinct)
  show "fst ` set (providers (updateProviders factory roots s)) = set (desired roots)"
    by (rule updateProviders_keys)
  show "length (providers (updateProviders factory roots s)) \<le> 4 * length roots"
    using assms by (rule updateProviders_length)
  fix fld cp fn
  assume "fld \<in> set roots" "cp \<in> set configPaths" "fn \<in> set configFileNames"
  then have "URI_resolve (URI_resolve (uri fld) cp) fn \<in> set (desired roots)"
    by (rule current_folder_desired)
  then have "URI_resolve (URI_resolve (uri fld) cp) fn
               \<in> fst ` set (providers (updateProviders factory roots s))"
    by (simp only: updateProviders_keys)
  with d show "length (filter (\<lambda>kv. fst kv = URI_resolve (URI_resolve (uri fld) cp) fn)
                       (providers (updateProviders factory roots s))) = 1"
    by (rule one_entry_per_key)
qed

theorem updateProviders_registry_witness:
  "distinct (map fst (registry (file_provider siblings_7) [folder_a, folder_b]))
   \<and> length (providers (updateProviders (file_provider siblings_7) [folder_a]
        (updateProviders (file_provider siblings_7) [folder_a, folder_b] initial))) \<le> 4 * length [folder_a]
   \<and> length (filter (\<lambda>kv. fst kv = ''/root/a/.vscode/settings.json'')
        (providers (updateProviders (file_provider siblings_7) [folder_a]
          (updateProviders (file_provider siblings_7) [folder_a, folder_b] initial)))) = 1"
proof -
  let ?s1 = "updateProviders (file_provider siblings_7) [folder_a, folder_b] initial"
  have d: "distinct (map fst (providers ?s1))"
    using registry_consistent [of "file_provider siblings_7" "[folder_a, folder_b]"]
    by (simp add: registry_def)
  have k: "''/root/a/.vscode/settings.json'' = URI_resolve (URI_resolve (uri folder_a) ''.vscode'') ''settings.json''"
    by (simp add: URI_resolve_def folder_a_def)
  have m: "folder_a \<in> set [folder_a]" "''.vscode'' \<in> set configPaths" "''settings.json'' \<in> set configFileNames"
    by (simp_all add: configPaths_def configFileNames_def)
  from updateProviders_registry [OF d, of "file_provider siblings_7" "[folder_a]"] m
  have "length (providers (updateProviders (file_provider siblings_7) [folder_a] ?s1)) \<le> 4 * length [folder_a]"
    and "length (filter (\<lambda>kv. fst kv = URI_resolve (URI_resolve (uri folder_a) ''.vscode'') ''settings.json'')
        (providers (updateProviders (file_provider siblings_7) [folder_a] ?s1))) = 1"
    by blast+
  with d k show ?thesis by (simp add: registry_def)
qed

text \<open>
  C7: a provider registered under the identity of a combination of a current folder stays
  registered under it, the very same instance, and the run neither calls the factory for
  that identity nor disposes a provider of it.
\<close>

theorem persisting_provider_kept:
  assumes "distinct (map fst (providers s))"
    and "fld \<in> set roots" and "cp \<in> set configPaths" and "fn \<in> set configFileNames"
    and "map_of (providers s) (URI_resolve (URI_resolve (uri fld) cp) fn) = Some p"
  shows "map_of (providers (updateProviders factory roots s))
           (URI_resolve (URI_resolve (uri fld) cp) fn) = Some p
       \<and> prefix (trace s) (trace (updateProviders factory roots s))
       \<and> filter (\<lambda>e. event_key e = URI_resolve (URI_resolve (uri fld) cp) fn)
           (run_events s (updateProviders factory roots s)) = []"
proof -
  have k: "URI_resolve (URI_resolve (uri fld) cp) fn \<in> set (desired roots)"
    using assms(2-4) by (rule current_folder_desired)
  from updateProviders_kept [OF k assms(5)] run_events_key [OF assms(1,5), of factory roots] k
  show ?thesis by simp
qed

theorem persisting_provider_kept_witness:
  "map_option oid (map_of (providers (updateProviders (file_provider siblings_7) [folder_a]
        (updateProviders (file_provider siblings_7) [folder_a, folder_b] initial)))
      ''/root/a/.theia/settings.json'') = Some 1
   \<and> filter (\<lambda>e. event_key e = ''/root/a/.theia/settings.json'')
        (run_events (updateProviders (file_provider siblings_7) [folder_a, folder_b] initial)
           (updateProviders (file_provider siblings_7) [folder_a]
             (updateProviders (file_provider siblings_7) [folder_a, folder_b] initial))) = []"
proof -
  let ?f = "file_provider siblings_7 :: int FolderPreferenceProviderFactory"
  let ?s1 = "updateProviders ?f [folder_a, folder_b] initial"
  let ?p = "(?f \<lparr> folder = folder_a, configUri = ''/root/a/.theia/settings.json'' \<rparr>)\<lparr> oid := 1 \<rparr>"
  have d: "distinct (map fst (providers ?s1))"
    using registry_consistent [of ?f "[folder_a, folder_b]"] by (simp add: registry_def)
  have k: "''/root/a/.theia/settings.json'' = URI_resolve (URI_resolve (uri folder_a) ''.theia'') ''settings.json''"
    by (simp add: URI_resolve_def folder_a_def)
  have m: "folder_a \<in> set [folder_a]" "''.theia'' \<in> set configPaths" "''settings.json'' \<in> set configFileNames"
    by (simp_all add: configPaths_def configFileNames_def)
  have "providers ?s1 = registry ?f [folder_a, folder_b]" by (simp add: registry_def)
  then have g: "map_of (providers ?s1) (URI_resolve (URI_resolve (uri folder_a) ''.theia'') ''settings.json'') = Some ?p"
    by (simp add: registry_two_folders k [symmetric])
  from persisting_provider_kept [OF d m g, of ?f] show ?thesis
    by (simp add: k [symmetric])
qed

text \<open>
  C8: when no current root has the folder's URI, a provider registered under an identity
  of that folder is removed from the registry by the next \<open>updateProviders\<close>, and the events
  of the run for that identity are exactly one \<open>dispose()\<close> of the registered instance: it is
  disposed once and no replacement is created before. The state stays consistent, so in
  every history each disposal hits the live instance of its identity.
\<close>

theorem removed_folder_disposed:
  assumes "consistent s"
    and "uri fld \<notin> uri ` set roots" and "cp \<in> set configPaths" and "fn \<in> set configFileNames"
    and "map_of (providers s) (URI_resolve (URI_resolve (uri fld) cp) fn) = Some p"
  shows "map_of (providers (updateProviders factory roots s))
           (URI_resolve (URI_resolve (uri fld) cp) fn) = None
       \<and> prefix (trace s) (trace (updateProviders factory roots s))
       \<and> filter (\<lambda>e. event_key e = URI_resolve (URI_resolve (uri fld) cp) fn)
           (run_events s (updateProviders factory roots s)) =
             [Disposed (URI_resolve (URI_resolve (uri fld) cp) fn) (oid p)]
       \<and> consistent (updateProviders factory roots s)"
proof -
  have k: "URI_resolve (URI_resolve (uri fld) cp) fn \<notin> set (desired roots)"
    using assms(2-4) by (rule removed_folder_not_desired)
  have d: "distinct (map fst (providers s))" using assms(1) by (simp add: consistent_def)
  from updateProviders_removed [OF k] run_events_key [OF d assms(5), of factory roots] k
       updateProviders_consistent [OF assms(1), of factory roots]
  show ?thesis by simp
qed

theorem removed_folder_disposed_witness:
  "map_of (providers (updateProviders (file_provider siblings_7) [folder_a]
        (updateProviders (file_provider siblings_7) [folder_a, folder_b] initial)))
      ''/root/b/.theia/settings.json'' = None
   \<and> filter (\<lambda>e. event_key e = ''/root/b/.theia/settings.json'')
        (run_events (updateProviders (file_provider siblings_7) [folder_a, folder_b] initial)
           (updateProviders (file_provider siblings_7) [folder_a]
             (updateProviders (file_provider siblings_7) [folder_a, folder_b] initial))) =
       [Disposed ''/root/b/.theia/settings.json'' 5]"
proof -
  let ?f = "file_provider siblings_7 :: int FolderPreferenceProviderFactory"
  let ?s1 = "updateProviders ?f [folder_a, folder_b] initial"
  let ?p = "(?f \<lparr> folder = folder_b, configUri = ''/root/b/.theia/settings.json'' \<rparr>)\<lparr> oid := 5 \<rparr>"
  have c: "consistent ?s1"
    using updateProviders_consistent [OF initial_consistent] .
  have k: "''/root/b/.theia/settings.json'' = URI_resolve (URI_resolve (uri folder_b) ''.theia'') ''settings.json''"
    by (simp add: URI_resolve_def folder_b_def)
  have m: "uri folder_b \<notin> uri ` set [folder_a]" "''.theia'' \<in> set configPaths" "''settings.json'' \<in> set configFileNames"
    by (simp_all add: configPaths_def configFileNames_def folder_a_def folder_b_def)
  have "providers ?s1 = registry ?f [folder_a, folder_b]" by (simp add: registry_def)
  then have g: "map_of (providers ?s1) (URI_resolve (URI_resolve (uri folder_b) ''.theia'') ''settings.json'') = Some ?p"
    by (simp add: registry_two_folders k [symmetric])
  from removed_folder_disposed [OF c m g, of ?f] show ?thesis
    by (simp add: k [symmetric])
qed

end
